theory Spec2Isabelle
  imports Complex_Main "HOL-Library.Sublist"
begin

section \<open>Python values: exceptions and strings\<close>

text \<open>
  Every exception the modelled code can raise is a value of \<open>error\<close>; a function that may
  raise returns \<open>error + 'a\<close> with \<open>Inl\<close> for the exception. \<open>ValueError\<close> carries its
  message, because the code raises it with a message of its own and Python's built-in
  \<open>max\<close> raises the same class with another one. \<open>StatisticsError\<close> is a subclass of
  \<open>ValueError\<close> in Python; it is kept apart here.
\<close>

datatype error =
    ValueError string
  | ZeroDivisionError
  | StatisticsError
  | IndexError
  | KeyError string
  | NameError string
  | ImportError string
  | TypeError
  | AttributeError string

text \<open>
  A Python \<open>str\<close> is a sequence of code points. The model is \<open>string\<close>, whose characters
  are the code points 0..255 (Latin-1); the character classes below are Python's
  \<open>str.isalpha\<close>, \<open>str.isdigit\<close>, \<open>str.isspace\<close> and \<open>str.lower\<close> on that range.
\<close>

definition code_point :: "char \<Rightarrow> nat" where
  "code_point c = of_char c"

definition isalpha :: "char \<Rightarrow> bool" where
  "isalpha c = (let n = code_point c in
     (65 \<le> n \<and> n \<le> 90) \<or> (97 \<le> n \<and> n \<le> 122) \<or> n = 170 \<or> n = 181 \<or> n = 186 \<or>
     (192 \<le> n \<and> n \<le> 214) \<or> (216 \<le> n \<and> n \<le> 246) \<or> (248 \<le> n \<and> n \<le> 255))"

definition isdigit :: "char \<Rightarrow> bool" where
  "isdigit c = (let n = code_point c in
     (48 \<le> n \<and> n \<le> 57) \<or> n = 178 \<or> n = 179 \<or> n = 185)"

definition isspace :: "char \<Rightarrow> bool" where
  "isspace c = (let n = code_point c in
     (9 \<le> n \<and> n \<le> 13) \<or> (28 \<le> n \<and> n \<le> 32) \<or> n = 133 \<or> n = 160)"

definition lower_char :: "char \<Rightarrow> char" where
  "lower_char c = (let n = code_point c in
     if (65 \<le> n \<and> n \<le> 90) \<or> (192 \<le> n \<and> n \<le> 222 \<and> n \<noteq> 215)
     then char_of (n + 32) else c)"

definition lower :: "string \<Rightarrow> string" where
  "lower s = map lower_char s"

text \<open>\<open>s.strip()\<close>: leading and trailing whitespace removed.\<close>

definition strip :: "string \<Rightarrow> string" where
  "strip s = rev (dropWhile isspace (rev (dropWhile isspace s)))"

text \<open>
  \<open>s.split()\<close> without a separator: the maximal runs of non-whitespace characters, no
  empty string among them. \<open>cur\<close> is the word being read.
\<close>

fun split_words :: "string \<Rightarrow> string \<Rightarrow> string list" where
  "split_words cur [] = (if cur = [] then [] else [cur])"
| "split_words cur (c # cs) =
     (if isspace c then (if cur = [] then split_words [] cs else cur # split_words [] cs)
      else split_words (cur @ [c]) cs)"

definition split :: "string \<Rightarrow> string list" where
  "split s = split_words [] s"

text \<open>
  \<open>s.split(sep)\<close> for a separator of one character (the code uses \<open>" "\<close>, \<open>"."\<close> and
  \<open>"\n"\<close>): every occurrence separates, empty pieces are kept, and the empty string gives
  one empty piece.
\<close>

fun split_pieces :: "char \<Rightarrow> string \<Rightarrow> string \<Rightarrow> string list" where
  "split_pieces sep cur [] = [cur]"
| "split_pieces sep cur (c # cs) =
     (if c = sep then cur # split_pieces sep [] cs else split_pieces sep (cur @ [c]) cs)"

definition split_on :: "char \<Rightarrow> string \<Rightarrow> string list" where
  "split_on sep s = split_pieces sep [] s"

text \<open>\<open>sep.join(pieces)\<close> for a separator of one character.\<close>

fun join :: "char \<Rightarrow> string list \<Rightarrow> string" where
  "join sep [] = []"
| "join sep [x] = x"
| "join sep (x # y # ys) = x @ sep # join sep (y # ys)"

text \<open>
  \<open>s.split(sep, 1)\<close> when \<open>sep in s\<close>: the text before and after the first occurrence of
  \<open>sep\<close>; \<open>None\<close> when \<open>sep\<close> does not occur (\<open>sep in s\<close> is false).
\<close>

fun split_once :: "string \<Rightarrow> string \<Rightarrow> (string \<times> string) option" where
  "split_once sep [] = (if sep = [] then Some ([], []) else None)"
| "split_once sep (c # cs) =
     (if take (length sep) (c # cs) = sep then Some ([], drop (length sep) (c # cs))
      else (case split_once sep cs of
              None \<Rightarrow> None
            | Some (before, after) \<Rightarrow> Some (c # before, after)))"

definition newline :: char where
  "newline = CHR 0x0A"

section \<open>Trigram blocking (utils.py, \<open>trigram_blocking\<close>)\<close>

text \<open>\<open>nltk.ngrams(words, 3)\<close>: the triples of consecutive words, in order.\<close>

fun ngrams3 :: "'a list \<Rightarrow> ('a \<times> 'a \<times> 'a) list" where
  "ngrams3 (a # b # c # rest) = (a, b, c) # ngrams3 (b # c # rest)"
| "ngrams3 _ = []"

definition sentence_trigrams :: "string \<Rightarrow> (string \<times> string \<times> string) set" where
  "sentence_trigrams sentence = set (ngrams3 (split (lower sentence)))"

text \<open>
  The loop over \<open>sentences\<close>, with the two locals \<open>summary\<close> and \<open>trigrams_summary\<close> as
  explicit state.
\<close>

fun trigram_blocking_loop ::
  "string list \<Rightarrow> string list \<Rightarrow> (string \<times> string \<times> string) set \<Rightarrow> string list" where
  "trigram_blocking_loop [] summary trigrams_summary = summary"
| "trigram_blocking_loop (sentence # rest) summary trigrams_summary =
     (if trigrams_summary \<inter> sentence_trigrams sentence = {}
      then trigram_blocking_loop rest (summary @ [sentence])
             (trigrams_summary \<union> sentence_trigrams sentence)
      else trigram_blocking_loop rest summary trigrams_summary)"

definition trigram_blocking :: "string list \<Rightarrow> string list" where
  "trigram_blocking sentences = trigram_blocking_loop sentences [] {}"

section \<open>Score dictionaries\<close>

text \<open>
  A ROUGE score is a Python dict of dicts, \<open>{"rouge-1": {"f": .., "p": .., "r": ..}, ..}\<close>:
  a map from keys to maps from metrics to numbers. Python floats are modelled as real
  numbers. \<open>leaf d key metric\<close> is \<open>d[key][metric]\<close>, which raises \<open>KeyError\<close> on a
  missing key.
\<close>

type_synonym score_dict = "string \<rightharpoonup> (string \<rightharpoonup> real)"

definition leaf :: "score_dict \<Rightarrow> string \<Rightarrow> string \<Rightarrow> error + real" where
  "leaf d key metric =
     (case d key of
        None \<Rightarrow> Inl (KeyError key)
      | Some sub \<Rightarrow> (case sub metric of None \<Rightarrow> Inl (KeyError metric) | Some v \<Rightarrow> Inr v))"

definition zero_prf :: "string \<rightharpoonup> real" where
  "zero_prf = [''f'' \<mapsto> 0, ''p'' \<mapsto> 0, ''r'' \<mapsto> 0]"

definition zero_scores :: score_dict where
  "zero_scores = [''rouge-1'' \<mapsto> zero_prf, ''rouge-2'' \<mapsto> zero_prf, ''rouge-l'' \<mapsto> zero_prf]"

definition keys :: "string list" where
  "keys = [''rouge-1'', ''rouge-2'', ''rouge-l'']"

definition metrics :: "string list" where
  "metrics = [''f'', ''p'', ''r'']"

text \<open>Python's \<open>sum\<close>: the items are added to 0 from left to right.\<close>

definition py_sum :: "real list \<Rightarrow> real" where
  "py_sum xs = foldl (+) 0 xs"

section \<open>Averaging score dictionaries (test.py, \<open>compute_avg_dict\<close>)\<close>

text \<open>
  \<open>sum(dictionary[key][metric] for dictionary in dict_list)\<close> reads one leaf of every
  dictionary, in order, and stops at the first \<open>KeyError\<close>.
\<close>

fun leaves :: "score_dict list \<Rightarrow> string \<Rightarrow> string \<Rightarrow> error + real list" where
  "leaves [] key metric = Inr []"
| "leaves (dictionary # rest) key metric =
     (case leaf dictionary key metric of
        Inl e \<Rightarrow> Inl e
      | Inr v \<Rightarrow> (case leaves rest key metric of Inl e \<Rightarrow> Inl e | Inr vs \<Rightarrow> Inr (v # vs)))"

definition avg_leaf :: "score_dict list \<Rightarrow> string \<Rightarrow> string \<Rightarrow> error + real" where
  "avg_leaf dict_list key metric =
     (case leaves dict_list key metric of
        Inl e \<Rightarrow> Inl e
      | Inr vs \<Rightarrow>
          if length dict_list = 0 then Inl ZeroDivisionError
          else Inr (py_sum vs / real (length dict_list)))"

text \<open>The inner loop over \<open>metrics\<close> fills \<open>avg_dict[key]\<close>, the outer one \<open>avg_dict\<close>.\<close>

fun avg_metrics ::
  "score_dict list \<Rightarrow> string \<Rightarrow> string list \<Rightarrow> (string \<rightharpoonup> real) \<Rightarrow> error + (string \<rightharpoonup> real)" where
  "avg_metrics dict_list key [] sub = Inr sub"
| "avg_metrics dict_list key (metric # rest) sub =
     (case avg_leaf dict_list key metric of
        Inl e \<Rightarrow> Inl e
      | Inr v \<Rightarrow> avg_metrics dict_list key rest (sub(metric \<mapsto> v)))"

fun avg_keys :: "score_dict list \<Rightarrow> string list \<Rightarrow> score_dict \<Rightarrow> error + score_dict" where
  "avg_keys dict_list [] avg_dict = Inr avg_dict"
| "avg_keys dict_list (key # rest) avg_dict =
     (case avg_metrics dict_list key metrics Map.empty of
        Inl e \<Rightarrow> Inl e
      | Inr sub \<Rightarrow> avg_keys dict_list rest (avg_dict(key \<mapsto> sub)))"

definition compute_avg_dict :: "score_dict list \<Rightarrow> error + score_dict" where
  "compute_avg_dict dict_list = avg_keys dict_list keys Map.empty"

section \<open>Choosing the best reference (utils.py, \<open>aggregate_test_scores\<close>)\<close>

text \<open>The loop over \<open>scores\<close>, with \<open>max_rouge_2_f\<close> and \<open>best_dict\<close> as state.\<close>

fun aggregate_test_loop :: "score_dict list \<Rightarrow> real \<Rightarrow> score_dict \<Rightarrow> error + score_dict" where
  "aggregate_test_loop [] max_rouge_2_f best_dict = Inr best_dict"
| "aggregate_test_loop (dictionary # rest) max_rouge_2_f best_dict =
     (case leaf dictionary ''rouge-2'' ''f'' of
        Inl e \<Rightarrow> Inl e
      | Inr rouge_2_f \<Rightarrow>
          if rouge_2_f \<ge> max_rouge_2_f then aggregate_test_loop rest rouge_2_f dictionary
          else aggregate_test_loop rest max_rouge_2_f best_dict)"

definition aggregate_test_scores :: "score_dict list \<Rightarrow> error + score_dict" where
  "aggregate_test_scores scores = aggregate_test_loop scores 0 Map.empty"

section \<open>ROUGE labels (utils.py, \<open>compute_rouges\<close>)\<close>

text \<open>
  The three aggregation functions. \<open>max(x)\<close> raises \<open>ValueError\<close> on an empty list,
  \<open>sum(x) / len(x)\<close> raises \<open>ZeroDivisionError\<close>, and \<open>statistics.harmonic_mean\<close> raises
  \<open>StatisticsError\<close> on an empty list; it reads the values in order, raises
  \<open>StatisticsError\<close> at a negative one and returns 0 at a zero, whichever comes first
  (\<open>harmonic_scan\<close>).
\<close>

fun py_max :: "real list \<Rightarrow> error + real" where
  "py_max [] = Inl (ValueError ''max() arg is an empty sequence'')"
| "py_max (x # xs) = Inr (foldl max x xs)"

definition average :: "real list \<Rightarrow> error + real" where
  "average x = (if length x = 0 then Inl ZeroDivisionError else Inr (py_sum x / real (length x)))"

fun harmonic_scan :: "real list \<Rightarrow> (error + real) option" where
  "harmonic_scan [] = None"
| "harmonic_scan (v # vs) =
     (if v < 0 then Some (Inl StatisticsError)
      else if v = 0 then Some (Inr 0)
      else harmonic_scan vs)"

definition harmonic_mean :: "real list \<Rightarrow> error + real" where
  "harmonic_mean x =
     (if x = [] then Inl StatisticsError
      else (case harmonic_scan x of
              Some r \<Rightarrow> r
            | None \<Rightarrow> Inr (real (length x) / py_sum (map (\<lambda>v. 1 / v) x))))"

definition aggregate_f :: "string \<Rightarrow> error + (real list \<Rightarrow> error + real)" where
  "aggregate_f aggregation =
     (if aggregation = ''max'' then Inr py_max
      else if aggregation = ''average'' then Inr average
      else if aggregation = ''harmonic'' then Inr harmonic_mean
      else Inl (ValueError (''Invalid aggregation parameter: '' @ aggregation)))"

text \<open>
  The ROUGE engine is an external library. \<open>rouge_model s r\<close> is
  \<open>rouge_model.get_scores(s, r)[0]\<close>: \<open>None\<close> when the call raises (the code catches every
  exception of the call), the score dictionary otherwise. To state which calls are made,
  the functions below also return the list of the (sentence, reference) pairs handed to
  the engine, in order.
\<close>

type_synonym rouge_engine = "string \<Rightarrow> string \<Rightarrow> score_dict option"

datatype rouge_val = Score real | Scores score_dict

definition skip_sentence :: "string \<Rightarrow> bool" where
  "skip_sentence sentence = (strip sentence = [] \<or> \<not> (\<exists>char \<in> set sentence. isalpha char))"

definition test_score :: "rouge_engine \<Rightarrow> string \<Rightarrow> string \<Rightarrow> score_dict" where
  "test_score rouge_model sentence reference =
     (case rouge_model sentence reference of None \<Rightarrow> zero_scores | Some d \<Rightarrow> d)"

definition train_score :: "rouge_engine \<Rightarrow> string \<Rightarrow> string \<Rightarrow> real" where
  "train_score rouge_model sentence reference =
     (case rouge_model sentence reference of
        None \<Rightarrow> 0
      | Some d \<Rightarrow> (case leaf d ''rouge-2'' ''f'' of Inl e \<Rightarrow> 0 | Inr v \<Rightarrow> v))"

fun rouges_loop ::
  "rouge_engine \<Rightarrow> (real list \<Rightarrow> error + real) \<Rightarrow> bool \<Rightarrow> string list \<Rightarrow> string list \<Rightarrow>
   rouge_val list \<Rightarrow> (string \<times> string) list \<Rightarrow> (error + rouge_val list) \<times> (string \<times> string) list" where
  "rouges_loop rouge_model agg is_test references [] rouges calls = (Inr rouges, calls)"
| "rouges_loop rouge_model agg is_test references (sentence # rest) rouges calls =
     (if skip_sentence sentence then
        rouges_loop rouge_model agg is_test references rest
          (rouges @ [if is_test then Scores zero_scores else Score 0]) calls
      else
        (let calls' = calls @ map (Pair sentence) references in
         if is_test then
           (case aggregate_test_scores (map (test_score rouge_model sentence) references) of
              Inl e \<Rightarrow> (Inl e, calls')
            | Inr aggregated_rouges \<Rightarrow>
                rouges_loop rouge_model agg is_test references rest
                  (rouges @ [Scores aggregated_rouges]) calls')
         else
           (case agg (map (train_score rouge_model sentence) references) of
              Inl e \<Rightarrow> (Inl e, calls')
            | Inr v \<Rightarrow>
                rouges_loop rouge_model agg is_test references rest (rouges @ [Score v]) calls')))"

definition compute_rouges ::
  "rouge_engine \<Rightarrow> string list \<Rightarrow> string list \<Rightarrow> string \<Rightarrow> bool \<Rightarrow>
   (error + rouge_val list) \<times> (string \<times> string) list" where
  "compute_rouges rouge_model sentences references aggregation is_test =
     (case aggregate_f aggregation of
        Inl e \<Rightarrow> (Inl e, [])
      | Inr agg \<Rightarrow> rouges_loop rouge_model agg is_test references sentences [] [])"

section \<open>Embedding similarity (utils.py, \<open>compute_similarities\<close>)\<close>

text \<open>
  The reductions of one row of \<open>cosine_scores\<close>, which has one row per sentence and one
  column per reference. A reduced value is \<open>Some v\<close> when its computation stays within
  finite numbers and \<open>None\<close> when it goes through an infinity or NaN (a mean over no
  column, a reciprocal of 0), which the real numbers of this model do not follow.
  \<open>torch.max\<close> over a dimension of size 0 raises \<open>IndexError\<close>.
\<close>

definition torch_max :: "real list \<Rightarrow> error + real option" where
  "torch_max row = (case row of [] \<Rightarrow> Inl IndexError | v # vs \<Rightarrow> Inr (Some (foldl max v vs)))"

definition torch_mean :: "real list \<Rightarrow> real option" where
  "torch_mean row = (if row = [] then None else Some (py_sum row / real (length row)))"

definition torch_harmonic :: "real list \<Rightarrow> real option" where
  "torch_harmonic row =
     (if 0 \<in> set row then None
      else (case torch_mean (map (\<lambda>v. 1 / v) row) of
              None \<Rightarrow> None
            | Some m \<Rightarrow> if m = 0 then None else Some (1 / m)))"

fun reduce_rows :: "(real list \<Rightarrow> error + real option) \<Rightarrow> real list list \<Rightarrow> error + real option list" where
  "reduce_rows f [] = Inr []"
| "reduce_rows f (row # rest) =
     (case f row of
        Inl e \<Rightarrow> Inl e
      | Inr v \<Rightarrow> (case reduce_rows f rest of Inl e \<Rightarrow> Inl e | Inr vs \<Rightarrow> Inr (v # vs)))"

text \<open>
  The embedding model and \<open>util_st.cos_sim\<close> are external. \<open>similarity_model\<close> is \<open>None\<close>
  by default, and then \<open>similarity_model.encode\<close> raises \<open>AttributeError\<close>; otherwise
  \<open>encode texts\<close> is \<open>similarity_model.encode(texts, ..)\<close>, the embeddings or the
  exception raised. \<open>cos_sim\<close> gives the matrix of cosines or the exception raised. The
  function runs the two \<open>encode\<close> calls and \<open>cos_sim\<close> first (utils.py lines 243-245) and
  tests \<open>aggregation\<close> after them (lines 247-255). To state which calls are made, it also
  returns the list of the arguments handed to \<open>encode\<close>, in order.
\<close>

definition compute_similarities ::
  "('v \<Rightarrow> 'v \<Rightarrow> error + real list list) \<Rightarrow> string list \<Rightarrow> string list \<Rightarrow>
   (string list \<Rightarrow> error + 'v) option \<Rightarrow> string \<Rightarrow>
   (error + real option list) \<times> string list list" where
  "compute_similarities cos_sim sentences references similarity_model aggregation =
     (case similarity_model of
        None \<Rightarrow> (Inl (AttributeError ''encode''), [])
      | Some encode \<Rightarrow>
          (case encode sentences of
             Inl e \<Rightarrow> (Inl e, [sentences])
           | Inr embeddings1 \<Rightarrow>
               (case encode references of
                  Inl e \<Rightarrow> (Inl e, [sentences, references])
                | Inr embeddings2 \<Rightarrow>
                    (case cos_sim embeddings1 embeddings2 of
                       Inl e \<Rightarrow> (Inl e, [sentences, references])
                     | Inr cosine_scores \<Rightarrow>
                         (if aggregation = ''max'' then reduce_rows torch_max cosine_scores
                          else if aggregation = ''average''
                            then reduce_rows (\<lambda>row. Inr (torch_mean row)) cosine_scores
                          else if aggregation = ''harmonic''
                            then reduce_rows (\<lambda>row. Inr (torch_harmonic row)) cosine_scores
                          else Inl (ValueError (''Invalid aggregation parameter: '' @ aggregation)),
                          [sentences, references])))))"

section \<open>Ranking (utils.py, \<open>get_scores\<close>)\<close>

text \<open>
  \<open>sorted(xs, key=key, reverse=True)\<close>: CPython reverses the list, sorts it with its
  stable ascending sort and reverses the result, so that equal keys keep the order they
  have in \<open>xs\<close>.
\<close>

definition sorted_reverse :: "('a \<Rightarrow> real) \<Rightarrow> 'a list \<Rightarrow> 'a list" where
  "sorted_reverse key xs = rev (sort_key key (rev xs))"

text \<open>
  The tokenizer and the classifier are external: \<open>tokenizer sentences context_list\<close> is
  the batch of inputs and \<open>model inputs\<close> is the value of
  \<open>outputs.logits.squeeze().tolist()\<close>. That value is a list of numbers, or one number when
  the squeezed tensor has no dimension left (\<open>squeeze\<close> drops every dimension of size 1, so
  the logits of a batch of one sentence become a scalar); \<open>len(scores)\<close> raises
  \<open>TypeError\<close> on a number. \<open>sentences[i]\<close> raises \<open>IndexError\<close> when the model gives
  more scores than there are sentences.
\<close>

datatype py_scores = PyFloat real | PyList "real list"

definition get_scores ::
  "string list \<Rightarrow> string \<Rightarrow> ('t \<Rightarrow> py_scores) \<Rightarrow> (string list \<Rightarrow> string list \<Rightarrow> 't) \<Rightarrow>
   error + (string list \<times> real list)" where
  "get_scores sentences context model tokenizer =
     (let context_list = replicate (length sentences) context;
          inputs = tokenizer sentences context_list
      in case model inputs of
           PyFloat x \<Rightarrow> Inl TypeError
         | PyList scores \<Rightarrow>
             (let sorted_indices = sorted_reverse (\<lambda>i. scores ! i) [0..<length scores]
              in if \<exists>i \<in> set sorted_indices. length sentences \<le> i then Inl IndexError
                 else Inr (map (\<lambda>i. sentences ! i) sorted_indices,
                           map (\<lambda>i. scores ! i) sorted_indices)))"

text \<open>
  The classifier is loaded with \<open>num_labels=1\<close> (test.py line 107), so \<open>outputs.logits\<close>
  has one row per sentence and one column; it is given here by that column.
  \<open>squeeze()\<close> drops every dimension of size 1: the logits of two or more sentences become
  a vector and \<open>tolist()\<close> a list, those of one sentence become a tensor without
  dimension and \<open>tolist()\<close> a float.
\<close>

definition squeeze_tolist :: "real list \<Rightarrow> py_scores" where
  "squeeze_tolist logits = (case logits of [x] \<Rightarrow> PyFloat x | _ \<Rightarrow> PyList logits)"

section \<open>Evaluation (test.py)\<close>

text \<open>\<open>xs[:k]\<close>: a negative \<open>k\<close> counts from the end.\<close>

definition slice_to :: "'a list \<Rightarrow> int \<Rightarrow> 'a list" where
  "slice_to xs k = (if 0 \<le> k then take (nat k) xs else take (length xs - nat (- k)) xs)"

text \<open>\<open>np.mean\<close> of a list; it is only reached with a non-empty list (see below).\<close>

definition np_mean :: "real list \<Rightarrow> real" where
  "np_mean xs = sum_list xs / real (length xs)"

text \<open>
  \<open>evaluate_article\<close> calls the global name \<open>compute_labels\<close>, with \<open>is_test=True\<close> and
  the global \<open>similarity_model\<close>. The binding of that name is a parameter: \<open>None\<close> when
  the name is unbound (the call raises \<open>NameError\<close>), \<open>Some f\<close> when it is bound to a
  function \<open>f\<close>, which takes the predicted highlight and the reference highlights and
  returns a score dictionary and a similarity, or raises. The second argument is
  \<open>string list option\<close> because \<open>current_highlight\<close> starts as Python's \<open>None\<close>.
\<close>

type_synonym labeller = "string \<Rightarrow> string list option \<Rightarrow> error + (score_dict \<times> real)"

fun article_loop ::
  "labeller option \<Rightarrow> string list \<Rightarrow> string list option \<Rightarrow> score_dict list \<Rightarrow> real list \<Rightarrow>
   error + (score_dict list \<times> real list)" where
  "article_loop compute_labels [] highlights_gt rouges semantic_similarities =
     Inr (rouges, semantic_similarities)"
| "article_loop compute_labels (h # rest) highlights_gt rouges semantic_similarities =
     (case compute_labels of
        None \<Rightarrow> Inl (NameError ''compute_labels'')
      | Some f \<Rightarrow>
          (case f h highlights_gt of
             Inl e \<Rightarrow> Inl e
           | Inr (rouge_score, similarity_score) \<Rightarrow>
               article_loop compute_labels rest highlights_gt
                 (rouges @ [rouge_score]) (semantic_similarities @ [similarity_score])))"

text \<open>
  The returned tuple evaluates \<open>compute_avg_dict(rouges)\<close> first; with no predicted
  highlight that raises \<open>ZeroDivisionError\<close>, so \<open>np.mean\<close> never sees an empty list.
\<close>

definition evaluate_article ::
  "labeller option \<Rightarrow> string list \<Rightarrow> string list option \<Rightarrow> error + (score_dict \<times> real)" where
  "evaluate_article compute_labels highlights_pred highlights_gt =
     (case article_loop compute_labels highlights_pred highlights_gt [] [] of
        Inl e \<Rightarrow> Inl e
      | Inr (rouges, semantic_similarities) \<Rightarrow>
          (case compute_avg_dict rouges of
             Inl e \<Rightarrow> Inl e
           | Inr avg \<Rightarrow> Inr (avg, np_mean semantic_similarities)))"

text \<open>
  The rows of the datasets. A raw or cleaned record has \<open>article\<close> and \<open>highlights\<close>; a
  row of the flattened test dataset has \<open>sentence\<close>, the context (the field \<open>context\<close> of
  the source, here \<open>ctxt\<close>) and \<open>highlights\<close>, the reference highlights joined by
  newlines.
\<close>

record row =
  highlights :: string

record data_point = row +
  article :: string

record example = row +
  sentence :: string
  ctxt :: string

text \<open>
  Closing a group (test.py lines 31-34 and 46-49): the sentences of the group are ranked
  against its context, the first \<open>num_highlight\<close> are evaluated against the highlights
  given, and the two results are appended.
\<close>

definition process_article ::
  "labeller option \<Rightarrow> ('t \<Rightarrow> py_scores) \<Rightarrow> (string list \<Rightarrow> string list \<Rightarrow> 't) \<Rightarrow> int \<Rightarrow>
   string list \<Rightarrow> string \<Rightarrow> string list option \<Rightarrow> error + (score_dict \<times> real)" where
  "process_article compute_labels model tokenizer num_highlight
       current_article_sentences current_context highlights_gt =
     (case get_scores current_article_sentences current_context model tokenizer of
        Inl e \<Rightarrow> Inl e
      | Inr (ranked_sents, ranked_scores) \<Rightarrow>
          evaluate_article compute_labels (slice_to ranked_sents num_highlight) highlights_gt)"

text \<open>
  The loop of \<open>evaluate_model\<close> over the dataset. The state is the five locals
  \<open>current_context\<close>, \<open>current_article_sentences\<close>, \<open>current_highlight\<close>, \<open>rouges\<close> and
  \<open>similarities\<close>. On a change of context the open group is closed with \<open>highlights\<close>,
  the highlights of the row just read (test.py line 32).
\<close>

fun evaluate_loop ::
  "labeller option \<Rightarrow> ('t \<Rightarrow> py_scores) \<Rightarrow> (string list \<Rightarrow> string list \<Rightarrow> 't) \<Rightarrow> int \<Rightarrow>
   example list \<Rightarrow> string option \<Rightarrow> string list \<Rightarrow> string list option \<Rightarrow>
   score_dict list \<Rightarrow> real list \<Rightarrow>
   error + (string option \<times> string list \<times> string list option \<times> score_dict list \<times> real list)" where
  "evaluate_loop compute_labels model tokenizer num_highlight []
       current_context current_article_sentences current_highlight rouges similarities =
     Inr (current_context, current_article_sentences, current_highlight, rouges, similarities)"
| "evaluate_loop compute_labels model tokenizer num_highlight (example # rest)
       current_context current_article_sentences current_highlight rouges similarities =
     (let highlights = split_on newline (highlights example) in
      if Some (ctxt example) \<noteq> current_context then
        (case current_context of
           None \<Rightarrow>
             evaluate_loop compute_labels model tokenizer num_highlight rest
               (Some (ctxt example)) [sentence example] (Some highlights) rouges similarities
         | Some c \<Rightarrow>
             (case process_article compute_labels model tokenizer num_highlight
                     current_article_sentences c (Some highlights) of
                Inl e \<Rightarrow> Inl e
              | Inr (rouge_dict, similarity) \<Rightarrow>
                  evaluate_loop compute_labels model tokenizer num_highlight rest
                    (Some (ctxt example)) [sentence example] (Some highlights)
                    (rouges @ [rouge_dict]) (similarities @ [similarity])))
      else
        evaluate_loop compute_labels model tokenizer num_highlight rest
          current_context (current_article_sentences @ [sentence example]) current_highlight
          rouges similarities)"

text \<open>
  \<open>evaluate_model_groups\<close> is \<open>evaluate_model\<close> up to its last line: the loop, then the
  closing of the last group with \<open>current_highlight\<close> (test.py line 47). It returns the two
  lists \<open>rouges\<close> and \<open>similarities\<close>, one entry per closed group.
\<close>

definition evaluate_model_groups ::
  "labeller option \<Rightarrow> example list \<Rightarrow> ('t \<Rightarrow> py_scores) \<Rightarrow> (string list \<Rightarrow> string list \<Rightarrow> 't) \<Rightarrow>
   int \<Rightarrow> error + (score_dict list \<times> real list)" where
  "evaluate_model_groups compute_labels dataset model tokenizer num_highlight =
     (case evaluate_loop compute_labels model tokenizer num_highlight dataset None [] None [] [] of
        Inl e \<Rightarrow> Inl e
      | Inr (current_context, current_article_sentences, current_highlight, rouges, similarities) \<Rightarrow>
          (case current_context of
             None \<Rightarrow> Inr (rouges, similarities)
           | Some c \<Rightarrow>
               (case process_article compute_labels model tokenizer num_highlight
                       current_article_sentences c current_highlight of
                  Inl e \<Rightarrow> Inl e
                | Inr (rouge_dict, similarity) \<Rightarrow>
                    Inr (rouges @ [rouge_dict], similarities @ [similarity]))))"

definition evaluate_model ::
  "labeller option \<Rightarrow> example list \<Rightarrow> ('t \<Rightarrow> py_scores) \<Rightarrow> (string list \<Rightarrow> string list \<Rightarrow> 't) \<Rightarrow>
   int \<Rightarrow> error + (score_dict \<times> real)" where
  "evaluate_model compute_labels dataset model tokenizer num_highlight =
     (case evaluate_model_groups compute_labels dataset model tokenizer num_highlight of
        Inl e \<Rightarrow> Inl e
      | Inr (rouges, similarities) \<Rightarrow>
          (case compute_avg_dict rouges of
             Inl e \<Rightarrow> Inl e
           | Inr avg \<Rightarrow> Inr (avg, np_mean similarities)))"

text \<open>
  For the statements about grouping: the maximal runs of consecutive rows with the same
  context, in order.
\<close>

function context_runs :: "example list \<Rightarrow> example list list" where
  "context_runs [] = []"
| "context_runs (x # xs) =
     (x # takeWhile (\<lambda>y. ctxt y = ctxt x) xs) # context_runs (dropWhile (\<lambda>y. ctxt y = ctxt x) xs)"
  by pat_completeness auto
termination
  by (relation "measure length") (auto simp: le_imp_less_Suc length_dropWhile_le)

text \<open>
  The names that test.py asks of the module utils (test.py line 5), and the names that
  utils.py binds at top level: its imports, then its functions and classes. The names
  brought in by \<open>from math import *\<close> are those of Python's math module.
\<close>

definition test_imports :: "string list" where
  "test_imports =
     [''setup_logging'', ''make_deterministic'', ''prepare_dataset'', ''get_scores'',
      ''compute_labels'']"

definition math_names :: "string list" where
  "math_names =
     [''acos'', ''acosh'', ''asin'', ''asinh'', ''atan'', ''atan2'', ''atanh'', ''cbrt'', ''ceil'',
      ''comb'', ''copysign'', ''cos'', ''cosh'', ''degrees'', ''dist'', ''e'', ''erf'', ''erfc'',
      ''exp'', ''exp2'', ''expm1'', ''fabs'', ''factorial'', ''floor'', ''fma'', ''fmod'', ''frexp'',
      ''fsum'', ''gamma'', ''gcd'', ''hypot'', ''inf'', ''isclose'', ''isfinite'', ''isinf'',
      ''isnan'', ''isqrt'', ''lcm'', ''ldexp'', ''lgamma'', ''log'', ''log10'', ''log1p'', ''log2'',
      ''modf'', ''nan'', ''nextafter'', ''perm'', ''pi'', ''pow'', ''prod'', ''radians'',
      ''remainder'', ''sin'', ''sinh'', ''sqrt'', ''sumprod'', ''tan'', ''tanh'', ''tau'', ''trunc'',
      ''ulp'']"

definition utils_names :: "string list" where
  "utils_names =
     [''spacy'', ''Dataset'', ''pd''] @ math_names @
     [''defaultdict'', ''sns'', ''plt'', ''gc'', ''time'', ''tqdm'', ''load'', ''os'', ''sys'',
      ''torch'', ''random'', ''logging'', ''traceback'', ''np'', ''join'', ''Rouge'', ''difflib'',
      ''cpu_count'', ''statistics'', ''load_dataset'', ''load_from_disk'', ''loggingDatasets'',
      ''loggingTransformer'', ''TrainerCallback'', ''util_st'', ''ngrams'',
      ''clean_dataset'', ''prepare_dataset'', ''compute_rouges'', ''compute_similarities'',
      ''compute_mrr_single_doc'', ''is_similar_string'', ''aggregate_test_scores'', ''get_scores'',
      ''trigram_blocking'', ''Explorer'', ''setup_logging'', ''LogCallback'',
      ''make_deterministic'']"

text \<open>
  \<open>from module import n1, n2, ..\<close>: the names are looked up in the module's namespace in
  order, and the first one missing raises \<open>ImportError\<close>.
\<close>

fun import_from :: "string list \<Rightarrow> string list \<Rightarrow> error + unit" where
  "import_from namespace [] = Inr ()"
| "import_from namespace (name # rest) =
     (if name \<in> set namespace then import_from namespace rest else Inl (ImportError name))"

section \<open>Cleaning (utils.py, \<open>clean_dataset\<close>)\<close>

text \<open>
  spaCy is external: \<open>nlp text\<close> is the list of the texts of the sentences of \<open>text\<close>
  (\<open>current_h.text\<close> for \<open>current_h\<close> in \<open>nlp(text).sents\<close>).

  The loop over the sentences of the highlights, with \<open>cleaned_high\<close> and \<open>n_highlight\<close>
  as state. The test counts the pieces of \<open>current_h.text.split(" ")\<close>; what is stored is
  the text without newlines, stripped.
\<close>

definition keep_highlight :: "string \<Rightarrow> bool" where
  "keep_highlight text =
     (length (split_on CHR '' '' text) > 3 \<and> (\<exists>char \<in> set text. isalpha char))"

definition clean_highlight :: "string \<Rightarrow> string" where
  "clean_highlight text = strip (filter (\<lambda>c. c \<noteq> newline) text)"

fun highlights_loop :: "string list \<Rightarrow> string \<Rightarrow> nat \<Rightarrow> string \<times> nat" where
  "highlights_loop [] cleaned_high n_highlight = (cleaned_high, n_highlight)"
| "highlights_loop (current_h # rest) cleaned_high n_highlight =
     (if keep_highlight current_h then
        highlights_loop rest
          ((if cleaned_high \<noteq> [] then cleaned_high @ [newline] else cleaned_high)
             @ clean_highlight current_h)
          (n_highlight + 1)
      else highlights_loop rest cleaned_high n_highlight)"

text \<open>
  \<open>if marker in article\<close> (\<open>text\<close> is the article): the text before the first occurrence of the marker is dropped,
  with the marker, when it has at most \<open>before_th\<close> characters.
\<close>

definition drop_before :: "string \<Rightarrow> nat \<Rightarrow> string \<Rightarrow> string" where
  "drop_before marker before_th text =
     (case split_once marker text of
        None \<Rightarrow> text
      | Some (text_before, text_after) \<Rightarrow>
          if length text_before \<le> before_th then text_after else text)"

text \<open>
  The additional cleaning: the loop over \<open>splits[j:]\<close>, \<open>text\<close> being the article. The first piece with more than two
  words without a digit ends the loop, and the article becomes the pieces from there on,
  joined and stripped; when there is none the article is unchanged.
\<close>

fun additional_cleaning :: "string list \<Rightarrow> string \<Rightarrow> string" where
  "additional_cleaning [] text = text"
| "additional_cleaning (piece # rest) text =
     (let words = filter (\<lambda>word. \<not> (\<exists>char \<in> set word. isdigit char)) (split piece) in
      if length words \<le> 2 then additional_cleaning rest text
      else strip (join CHR ''.'' (piece # rest)))"

text \<open>One iteration of the \<open>while\<close> loop on a record: \<open>None\<close> is \<open>continue\<close>.\<close>

definition clean_point :: "(string \<Rightarrow> string list) \<Rightarrow> data_point \<Rightarrow> data_point option" where
  "clean_point nlp data_point =
     (let before_th = 40;
          (cleaned_high, n_highlight) = highlights_loop (nlp (highlights data_point)) [] 0
      in if 3 \<le> n_highlight \<and> n_highlight \<le> 5 then
           (let article1 = drop_before ''--'' before_th (article data_point);
                article2 = drop_before ''(CNN)'' before_th article1;
                article3 = additional_cleaning (split_on CHR ''.'' article2) article2
            in if length article3 < 300 then None
               else Some (data_point\<lparr>highlights := cleaned_high, article := article3\<rparr>))
         else None)"

text \<open>
  The \<open>while\<close> loop: \<open>ds\<close> is the part of the shuffled dataset not yet read, and reading
  past its end (\<open>ds[i]\<close>) raises \<open>IndexError\<close>. \<open>num_samples\<close> is a count.
\<close>

fun clean_loop ::
  "(string \<Rightarrow> string list) \<Rightarrow> nat \<Rightarrow> data_point list \<Rightarrow> data_point list \<Rightarrow> error + data_point list" where
  "clean_loop nlp num_samples [] cleaned_ds =
     (if length cleaned_ds < num_samples then Inl IndexError else Inr cleaned_ds)"
| "clean_loop nlp num_samples (data_point # ds) cleaned_ds =
     (if length cleaned_ds < num_samples then
        (case clean_point nlp data_point of
           None \<Rightarrow> clean_loop nlp num_samples ds cleaned_ds
         | Some cleaned \<Rightarrow> clean_loop nlp num_samples ds (cleaned_ds @ [cleaned]))
      else Inr cleaned_ds)"

text \<open>\<open>shuffle seed dataset\<close> is \<open>dataset.shuffle(seed=seed)\<close>, external.\<close>

definition clean_dataset ::
  "(string \<Rightarrow> string list) \<Rightarrow> (int \<Rightarrow> data_point list \<Rightarrow> data_point list) \<Rightarrow>
   data_point list \<Rightarrow> nat \<Rightarrow> int \<Rightarrow> error + data_point list" where
  "clean_dataset nlp shuffle dataset num_samples seed =
     clean_loop nlp num_samples (shuffle seed dataset) []"

text \<open>
  For the statements about \<open>compute_avg_dict\<close>: the inner dictionary of the three means of
  one key, \<open>v d key metric\<close> being the leaf of \<open>d\<close>.
\<close>

definition mean_prf :: "(score_dict \<Rightarrow> string \<Rightarrow> string \<Rightarrow> real) \<Rightarrow> score_dict list \<Rightarrow> string \<Rightarrow> string \<rightharpoonup> real" where
  "mean_prf v dict_list key =
     [''f'' \<mapsto> (\<Sum>d\<leftarrow>dict_list. v d key ''f'') / real (length dict_list),
      ''p'' \<mapsto> (\<Sum>d\<leftarrow>dict_list. v d key ''p'') / real (length dict_list),
      ''r'' \<mapsto> (\<Sum>d\<leftarrow>dict_list. v d key ''r'') / real (length dict_list)]"

text \<open>The value appended for a skipped sentence (utils.py lines 194-202), for the statements below.\<close>

definition zero_val :: "bool \<Rightarrow> rouge_val" where
  "zero_val is_test = (if is_test then Scores zero_scores else Score 0)"

text \<open>
  For the statements about \<open>evaluate_model\<close>. \<open>open_groups c sents ch rest\<close> lists the
  groups that the loop closes when it reads \<open>rest\<close> with the group of context \<open>c\<close> open:
  the sentences of each group, its context, and the highlights handed to
  \<open>evaluate_article\<close> at its closing, which are those of the row that starts the next
  group and, for the last group, \<open>current_highlight\<close>. \<open>close_all\<close> closes the groups of
  such a list in order, and \<open>finish_groups\<close> is the part of \<open>evaluate_model\<close> after its
  loop.
\<close>

fun open_groups ::
  "string \<Rightarrow> string list \<Rightarrow> string list option \<Rightarrow> example list \<Rightarrow>
   (string list \<times> string \<times> string list option) list" where
  "open_groups c sents ch [] = [(sents, c, ch)]"
| "open_groups c sents ch (ex # rest) =
     (if ctxt ex = c then open_groups c (sents @ [sentence ex]) ch rest
      else (sents, c, Some (split_on newline (highlights ex))) #
           open_groups (ctxt ex) [sentence ex] (Some (split_on newline (highlights ex))) rest)"

fun close_all ::
  "labeller option \<Rightarrow> ('t \<Rightarrow> py_scores) \<Rightarrow> (string list \<Rightarrow> string list \<Rightarrow> 't) \<Rightarrow> int \<Rightarrow>
   (string list \<times> string \<times> string list option) list \<Rightarrow> score_dict list \<Rightarrow> real list \<Rightarrow>
   error + (score_dict list \<times> real list)" where
  "close_all compute_labels model tokenizer num_highlight [] rouges similarities =
     Inr (rouges, similarities)"
| "close_all compute_labels model tokenizer num_highlight ((sents, c, hl) # groups) rouges similarities =
     (case process_article compute_labels model tokenizer num_highlight sents c hl of
        Inl e \<Rightarrow> Inl e
      | Inr (rouge_dict, similarity) \<Rightarrow>
          close_all compute_labels model tokenizer num_highlight groups
            (rouges @ [rouge_dict]) (similarities @ [similarity]))"

definition finish_groups ::
  "labeller option \<Rightarrow> ('t \<Rightarrow> py_scores) \<Rightarrow> (string list \<Rightarrow> string list \<Rightarrow> 't) \<Rightarrow> int \<Rightarrow>
   error + (string option \<times> string list \<times> string list option \<times> score_dict list \<times> real list) \<Rightarrow>
   error + (score_dict list \<times> real list)" where
  "finish_groups compute_labels model tokenizer num_highlight res =
     (case res of
        Inl e \<Rightarrow> Inl e
      | Inr (current_context, current_article_sentences, current_highlight, rouges, similarities) \<Rightarrow>
          (case current_context of
             None \<Rightarrow> Inr (rouges, similarities)
           | Some c \<Rightarrow>
               (case process_article compute_labels model tokenizer num_highlight
                       current_article_sentences c current_highlight of
                  Inl e \<Rightarrow> Inl e
                | Inr (rouge_dict, similarity) \<Rightarrow>
                    Inr (rouges @ [rouge_dict], similarities @ [similarity]))))"

text \<open>
  For the statements about \<open>clean_dataset\<close>: the highlights kept from a record, as they are
  stored.
\<close>

definition kept_highlights :: "(string \<Rightarrow> string list) \<Rightarrow> data_point \<Rightarrow> string list" where
  "kept_highlights nlp data_point =
     map clean_highlight (filter keep_highlight (nlp (highlights data_point)))"

section \<open>Trigram blocking: subsequence, no shared trigram, short sentences\<close>

lemma isspace_lower_char: "isspace (lower_char c) = isspace c"
  by (auto simp: isspace_def lower_char_def code_point_def Let_def)

lemma split_words_lower:
  "split_words (map lower_char cur) (map lower_char s) = map (map lower_char) (split_words cur s)"
proof (induction s arbitrary: cur)
  case Nil
  show ?case by simp
next
  case (Cons c cs)
  show ?case
    using Cons.IH [of "[]"] Cons.IH [of "cur @ [c]"]
    by (simp add: isspace_lower_char)
qed

lemma length_split_lower: "length (split (lower s)) = length (split s)"
  using split_words_lower [of "[]" s] by (simp add: split_def lower_def)

lemma ngrams3_short: "length ws < 3 \<Longrightarrow> ngrams3 ws = []"
  by (cases ws rule: ngrams3.cases) auto

lemma short_no_trigrams: "length (split s) < 3 \<Longrightarrow> sentence_trigrams s = {}"
  by (simp add: sentence_trigrams_def ngrams3_short length_split_lower)

lemma trigram_blocking_loop_acc:
  "trigram_blocking_loop xs summary T = summary @ trigram_blocking_loop xs [] T"
proof (induction xs arbitrary: summary T)
  case Nil
  show ?case by simp
next
  case (Cons s rest)
  show ?case
    using Cons.IH [of "summary @ [s]"] Cons.IH [of "[s]"] Cons.IH [of summary T]
    by simp
qed

lemma trigram_blocking_loop_step:
  "trigram_blocking_loop (s # rest) [] T =
     (if T \<inter> sentence_trigrams s = {}
      then s # trigram_blocking_loop rest [] (T \<union> sentence_trigrams s)
      else trigram_blocking_loop rest [] T)"
  using trigram_blocking_loop_acc [of rest "[s]"] by simp

lemma trigram_blocking_loop_subseq: "subseq (trigram_blocking_loop xs [] T) xs"
  by (induction xs arbitrary: T) (auto simp: trigram_blocking_loop_step simp del: trigram_blocking_loop.simps(2))

lemma trigram_blocking_loop_fresh:
  "s \<in> set (trigram_blocking_loop xs [] T) \<Longrightarrow> T \<inter> sentence_trigrams s = {}"
proof (induction xs arbitrary: T)
  case Nil
  then show ?case by simp
next
  case (Cons x rest)
  then show ?case
    by (fastforce simp: trigram_blocking_loop_step simp del: trigram_blocking_loop.simps(2) split: if_splits)
qed

lemma trigram_blocking_loop_disjoint:
  "sorted_wrt (\<lambda>a b. sentence_trigrams a \<inter> sentence_trigrams b = {}) (trigram_blocking_loop xs [] T)"
proof (induction xs arbitrary: T)
  case Nil
  show ?case by simp
next
  case (Cons x rest)
  have "\<forall>y \<in> set (trigram_blocking_loop rest [] (T \<union> sentence_trigrams x)).
          sentence_trigrams x \<inter> sentence_trigrams y = {}"
    using trigram_blocking_loop_fresh [of _ rest "T \<union> sentence_trigrams x"] by blast
  with Cons.IH show ?case
    by (simp add: trigram_blocking_loop_step del: trigram_blocking_loop.simps(2))
qed

lemma trigram_blocking_loop_short:
  "filter (\<lambda>s. length (split s) < 3) (trigram_blocking_loop xs [] T) =
   filter (\<lambda>s. length (split s) < 3) xs"
  by (induction xs arbitrary: T)
     (simp_all add: trigram_blocking_loop_step short_no_trigrams del: trigram_blocking_loop.simps(2))

text \<open>
  C3. For every list of sentences, the output of \<open>trigram_blocking\<close> is a subsequence of
  the input in the same order; no output sentence shares a lower-cased word trigram with
  an earlier output sentence; and the sentences of fewer than three words are all kept
  (the output and the input have the same such sentences, in the same order).
\<close>

theorem trigram_blocking_guarantees:
  "subseq (trigram_blocking sentences) sentences \<and>
   (\<forall>i j. i < j \<and> j < length (trigram_blocking sentences) \<longrightarrow>
      sentence_trigrams (trigram_blocking sentences ! i) \<inter>
      sentence_trigrams (trigram_blocking sentences ! j) = {}) \<and>
   filter (\<lambda>s. length (split s) < 3) (trigram_blocking sentences) =
   filter (\<lambda>s. length (split s) < 3) sentences"
  unfolding trigram_blocking_def
  using trigram_blocking_loop_subseq [of sentences "{}"]
    trigram_blocking_loop_disjoint [of sentences "{}"]
    trigram_blocking_loop_short [of sentences "{}"]
  by (simp add: sorted_wrt_iff_nth_less)

theorem trigram_blocking_guarantees_witness:
  "trigram_blocking [''The cat sat on the mat'', ''Hi there'', ''a dog and THE CAT SAT down'',
       ''one two three four''] =
     [''The cat sat on the mat'', ''Hi there'', ''one two three four''] \<and>
   subseq [''The cat sat on the mat'', ''Hi there'', ''one two three four'']
     [''The cat sat on the mat'', ''Hi there'', ''a dog and THE CAT SAT down'',
       ''one two three four''] \<and>
   sentence_trigrams ''The cat sat on the mat'' \<inter> sentence_trigrams ''one two three four'' = {}"
proof -
  let ?X = "[''The cat sat on the mat'', ''Hi there'', ''a dog and THE CAT SAT down'',
       ''one two three four'']"
  have e: "trigram_blocking ?X =
      [''The cat sat on the mat'', ''Hi there'', ''one two three four'']"
    by code_simp
  have len: "(0::nat) < 2 \<and> 2 < length (trigram_blocking ?X)"
    by (simp add: e)
  note t = trigram_blocking_guarantees [of ?X]
  from t have a: "subseq (trigram_blocking ?X) ?X"
    by blast
  from t len have b: "sentence_trigrams (trigram_blocking ?X ! 0) \<inter>
      sentence_trigrams (trigram_blocking ?X ! 2) = {}"
    by blast
  show ?thesis
    using a b e by simp
qed

section \<open>Averaging: every leaf is the mean\<close>

lemma foldl_plus_sum_list: "foldl (+) a xs = a + sum_list (xs :: real list)"
  by (induction xs arbitrary: a) simp_all

lemma py_sum_sum_list: "py_sum xs = sum_list xs"
  by (simp add: py_sum_def foldl_plus_sum_list)

lemma leaves_all:
  "\<forall>d \<in> set dict_list. leaf d key metric = Inr (w d) \<Longrightarrow>
   leaves dict_list key metric = Inr (map w dict_list)"
  by (induction dict_list) simp_all

lemma avg_leaf_mean:
  assumes "dict_list \<noteq> []"
    and "\<forall>d \<in> set dict_list. leaf d key metric = Inr (v d key metric)"
  shows "avg_leaf dict_list key metric =
         Inr ((\<Sum>d\<leftarrow>dict_list. v d key metric) / real (length dict_list))"
  using assms(1) leaves_all [of dict_list key metric "\<lambda>d. v d key metric"] assms(2)
  by (simp add: avg_leaf_def py_sum_sum_list)

lemma avg_leaf_empty: "avg_leaf [] key metric = Inl ZeroDivisionError"
  by (simp add: avg_leaf_def)

lemma avg_metrics_mean:
  assumes "dict_list \<noteq> []"
    and "\<forall>d \<in> set dict_list. \<forall>metric \<in> set metrics. leaf d key metric = Inr (v d key metric)"
  shows "avg_metrics dict_list key metrics Map.empty =
         Inr [''f'' \<mapsto> (\<Sum>d\<leftarrow>dict_list. v d key ''f'') / real (length dict_list),
              ''p'' \<mapsto> (\<Sum>d\<leftarrow>dict_list. v d key ''p'') / real (length dict_list),
              ''r'' \<mapsto> (\<Sum>d\<leftarrow>dict_list. v d key ''r'') / real (length dict_list)]"
proof -
  have f: "avg_leaf dict_list key ''f'' = Inr ((\<Sum>d\<leftarrow>dict_list. v d key ''f'') / real (length dict_list))"
    using assms by (intro avg_leaf_mean) (simp_all add: metrics_def)
  have p: "avg_leaf dict_list key ''p'' = Inr ((\<Sum>d\<leftarrow>dict_list. v d key ''p'') / real (length dict_list))"
    using assms by (intro avg_leaf_mean) (simp_all add: metrics_def)
  have r: "avg_leaf dict_list key ''r'' = Inr ((\<Sum>d\<leftarrow>dict_list. v d key ''r'') / real (length dict_list))"
    using assms by (intro avg_leaf_mean) (simp_all add: metrics_def)
  show ?thesis
    by (simp add: metrics_def f p r)
qed

lemma compute_avg_dict_value:
  assumes "dict_list \<noteq> []"
    and "\<forall>d \<in> set dict_list. \<forall>key \<in> set keys. \<forall>metric \<in> set metrics.
           leaf d key metric = Inr (v d key metric)"
  shows "compute_avg_dict dict_list =
         Inr [''rouge-1'' \<mapsto> mean_prf v dict_list ''rouge-1'',
              ''rouge-2'' \<mapsto> mean_prf v dict_list ''rouge-2'',
              ''rouge-l'' \<mapsto> mean_prf v dict_list ''rouge-l'']"
proof -
  have k: "avg_metrics dict_list key metrics Map.empty = Inr (mean_prf v dict_list key)"
    if "key \<in> set keys" for key
    unfolding mean_prf_def using assms that by (intro avg_metrics_mean) simp_all
  show ?thesis
    by (simp add: compute_avg_dict_def keys_def k)
qed

lemma leaf_mean_prf:
  "metric \<in> set metrics \<Longrightarrow> d key = Some (mean_prf v dict_list key) \<Longrightarrow>
   leaf d key metric = Inr ((\<Sum>d\<leftarrow>dict_list. v d key metric) / real (length dict_list))"
  by (auto simp: leaf_def mean_prf_def metrics_def)

lemma dom_mean_prf: "dom (mean_prf v dict_list key) = set metrics"
  by (auto simp: mean_prf_def metrics_def split: if_splits)

lemma compute_avg_dict_empty: "compute_avg_dict [] = Inl ZeroDivisionError"
  by (simp add: compute_avg_dict_def keys_def metrics_def avg_leaf_empty)

text \<open>
  C8. For every non-empty list of N score dictionaries (each has the nine leaves, \<open>v\<close>
  names them), \<open>compute_avg_dict\<close> returns a dictionary with the keys rouge-1, rouge-2 and
  rouge-l, each with the metrics f, p and r, in which every leaf is the arithmetic mean
  of the N corresponding leaves. For the empty list it raises \<open>ZeroDivisionError\<close>.
\<close>

theorem compute_avg_dict_mean:
  "compute_avg_dict [] = Inl ZeroDivisionError \<and>
   (dict_list \<noteq> [] \<and>
    (\<forall>d \<in> set dict_list. \<forall>key \<in> set keys. \<forall>metric \<in> set metrics.
       leaf d key metric = Inr (v d key metric)) \<longrightarrow>
    (\<exists>avg. compute_avg_dict dict_list = Inr avg \<and> dom avg = set keys \<and>
       (\<forall>key \<in> set keys.
          (\<exists>sub. avg key = Some sub \<and> dom sub = set metrics) \<and>
          (\<forall>metric \<in> set metrics.
             leaf avg key metric =
             Inr ((\<Sum>d\<leftarrow>dict_list. v d key metric) / real (length dict_list))))))"
proof (intro conjI impI)
  show "compute_avg_dict [] = Inl ZeroDivisionError"
    by (rule compute_avg_dict_empty)
next
  assume a: "dict_list \<noteq> [] \<and>
    (\<forall>d \<in> set dict_list. \<forall>key \<in> set keys. \<forall>metric \<in> set metrics.
       leaf d key metric = Inr (v d key metric))"
  let ?avg = "[''rouge-1'' \<mapsto> mean_prf v dict_list ''rouge-1'',
               ''rouge-2'' \<mapsto> mean_prf v dict_list ''rouge-2'',
               ''rouge-l'' \<mapsto> mean_prf v dict_list ''rouge-l'']"
  have e: "compute_avg_dict dict_list = Inr ?avg"
    using a by (intro compute_avg_dict_value) simp_all
  have d: "dom ?avg = set keys"
    by (auto simp: keys_def split: if_splits)
  have s: "?avg key = Some (mean_prf v dict_list key)" if "key \<in> set keys" for key
    using that by (auto simp: keys_def)
  show "\<exists>avg. compute_avg_dict dict_list = Inr avg \<and> dom avg = set keys \<and>
       (\<forall>key \<in> set keys.
          (\<exists>sub. avg key = Some sub \<and> dom sub = set metrics) \<and>
          (\<forall>metric \<in> set metrics.
             leaf avg key metric =
             Inr ((\<Sum>d\<leftarrow>dict_list. v d key metric) / real (length dict_list))))"
    using e d s leaf_mean_prf [of _ ?avg _ v dict_list] dom_mean_prf [of v dict_list]
    by (intro exI [of _ ?avg]) simp
qed

theorem compute_avg_dict_mean_witness:
  "\<exists>avg. compute_avg_dict [zero_scores, zero_scores(''rouge-1'' \<mapsto> [''f'' \<mapsto> 1, ''p'' \<mapsto> 1/2, ''r'' \<mapsto> 0])] = Inr avg \<and>
     leaf avg ''rouge-1'' ''f'' = Inr (1/2) \<and> leaf avg ''rouge-1'' ''p'' = Inr (1/4) \<and>
     leaf avg ''rouge-2'' ''r'' = Inr 0"
proof -
  let ?d2 = "zero_scores(''rouge-1'' \<mapsto> [''f'' \<mapsto> 1, ''p'' \<mapsto> 1/2, ''r'' \<mapsto> 0])"
  let ?dl = "[zero_scores, ?d2]"
  let ?v = "\<lambda>d key metric. case leaf d key metric of Inl e \<Rightarrow> 0 | Inr x \<Rightarrow> x"
  have h: "?dl \<noteq> [] \<and>
    (\<forall>d \<in> set ?dl. \<forall>key \<in> set keys. \<forall>metric \<in> set metrics. leaf d key metric = Inr (?v d key metric))"
    by (simp add: keys_def metrics_def leaf_def zero_scores_def zero_prf_def)
  from compute_avg_dict_mean [of ?dl ?v] h
  obtain avg where a: "compute_avg_dict ?dl = Inr avg"
    and l: "\<forall>key \<in> set keys. \<forall>metric \<in> set metrics.
             leaf avg key metric = Inr ((\<Sum>d\<leftarrow>?dl. ?v d key metric) / real (length ?dl))"
    by blast
  have "leaf avg ''rouge-1'' ''f'' = Inr (1/2)"
    using l by (simp add: keys_def metrics_def leaf_def zero_scores_def zero_prf_def)
  moreover have "leaf avg ''rouge-1'' ''p'' = Inr (1/4)"
    using l by (simp add: keys_def metrics_def leaf_def zero_scores_def zero_prf_def)
  moreover have "leaf avg ''rouge-2'' ''r'' = Inr 0"
    using l by (simp add: keys_def metrics_def leaf_def zero_scores_def zero_prf_def)
  ultimately show ?thesis
    using a by blast
qed

section \<open>The best reference by rouge-2 f-score\<close>

lemma aggregate_test_loop_inv:
  assumes "\<forall>d \<in> set ds. leaf d ''rouge-2'' ''f'' = Inr (g d)"
  shows "\<exists>b. aggregate_test_loop ds mx best = Inr b \<and>
           ((b = best \<and> (\<forall>d \<in> set ds. g d < mx)) \<or>
            (\<exists>i<length ds. b = ds ! i \<and> mx \<le> g (ds ! i) \<and>
               (\<forall>j<length ds. g (ds ! j) \<le> g (ds ! i)) \<and>
               (\<forall>j. i < j \<and> j < length ds \<longrightarrow> g (ds ! j) < g (ds ! i))))"
  using assms
proof (induction ds arbitrary: mx best)
  case Nil
  show ?case by simp
next
  case (Cons d ds)
  have ld: "leaf d ''rouge-2'' ''f'' = Inr (g d)"
    using Cons.prems by simp
  have rest: "\<forall>d \<in> set ds. leaf d ''rouge-2'' ''f'' = Inr (g d)"
    using Cons.prems by simp
  show ?case
  proof (cases "mx \<le> g d")
    case True
    from Cons.IH [OF rest, of "g d" d] obtain b where
      b: "aggregate_test_loop ds (g d) d = Inr b" and
      alt: "(b = d \<and> (\<forall>x \<in> set ds. g x < g d)) \<or>
            (\<exists>i<length ds. b = ds ! i \<and> g d \<le> g (ds ! i) \<and>
               (\<forall>j<length ds. g (ds ! j) \<le> g (ds ! i)) \<and>
               (\<forall>j. i < j \<and> j < length ds \<longrightarrow> g (ds ! j) < g (ds ! i)))"
      by blast
    have run: "aggregate_test_loop (d # ds) mx best = Inr b"
      using ld True b by simp
    from alt show ?thesis
    proof
      assume h: "b = d \<and> (\<forall>x \<in> set ds. g x < g d)"
      have "0 < length (d # ds) \<and> b = (d # ds) ! 0 \<and> mx \<le> g ((d # ds) ! 0) \<and>
            (\<forall>j<length (d # ds). g ((d # ds) ! j) \<le> g ((d # ds) ! 0)) \<and>
            (\<forall>j. 0 < j \<and> j < length (d # ds) \<longrightarrow> g ((d # ds) ! j) < g ((d # ds) ! 0))"
        using h True by (auto simp: nth_Cons less_eq_real_def split: nat.splits)
      then show ?thesis using run by blast
    next
      assume "\<exists>i<length ds. b = ds ! i \<and> g d \<le> g (ds ! i) \<and>
               (\<forall>j<length ds. g (ds ! j) \<le> g (ds ! i)) \<and>
               (\<forall>j. i < j \<and> j < length ds \<longrightarrow> g (ds ! j) < g (ds ! i))"
      then obtain i where i: "i < length ds" "b = ds ! i" "g d \<le> g (ds ! i)"
        "\<forall>j<length ds. g (ds ! j) \<le> g (ds ! i)"
        "\<forall>j. i < j \<and> j < length ds \<longrightarrow> g (ds ! j) < g (ds ! i)"
        by blast
      have "Suc i < length (d # ds) \<and> b = (d # ds) ! Suc i \<and> mx \<le> g ((d # ds) ! Suc i) \<and>
            (\<forall>j<length (d # ds). g ((d # ds) ! j) \<le> g ((d # ds) ! Suc i)) \<and>
            (\<forall>j. Suc i < j \<and> j < length (d # ds) \<longrightarrow> g ((d # ds) ! j) < g ((d # ds) ! Suc i))"
        using i True by (auto simp: nth_Cons split: nat.splits)
      then show ?thesis using run by blast
    qed
  next
    case False
    from Cons.IH [OF rest, of mx best] obtain b where
      b: "aggregate_test_loop ds mx best = Inr b" and
      alt: "(b = best \<and> (\<forall>x \<in> set ds. g x < mx)) \<or>
            (\<exists>i<length ds. b = ds ! i \<and> mx \<le> g (ds ! i) \<and>
               (\<forall>j<length ds. g (ds ! j) \<le> g (ds ! i)) \<and>
               (\<forall>j. i < j \<and> j < length ds \<longrightarrow> g (ds ! j) < g (ds ! i)))"
      by blast
    have run: "aggregate_test_loop (d # ds) mx best = Inr b"
      using ld False b by simp
    from alt show ?thesis
    proof
      assume "b = best \<and> (\<forall>x \<in> set ds. g x < mx)"
      then show ?thesis using run False by auto
    next
      assume "\<exists>i<length ds. b = ds ! i \<and> mx \<le> g (ds ! i) \<and>
               (\<forall>j<length ds. g (ds ! j) \<le> g (ds ! i)) \<and>
               (\<forall>j. i < j \<and> j < length ds \<longrightarrow> g (ds ! j) < g (ds ! i))"
      then obtain i where i: "i < length ds" "b = ds ! i" "mx \<le> g (ds ! i)"
        "\<forall>j<length ds. g (ds ! j) \<le> g (ds ! i)"
        "\<forall>j. i < j \<and> j < length ds \<longrightarrow> g (ds ! j) < g (ds ! i)"
        by blast
      have "Suc i < length (d # ds) \<and> b = (d # ds) ! Suc i \<and> mx \<le> g ((d # ds) ! Suc i) \<and>
            (\<forall>j<length (d # ds). g ((d # ds) ! j) \<le> g ((d # ds) ! Suc i)) \<and>
            (\<forall>j. Suc i < j \<and> j < length (d # ds) \<longrightarrow> g ((d # ds) ! j) < g ((d # ds) ! Suc i))"
        using i False by (auto simp: nth_Cons split: nat.splits)
      then show ?thesis using run by blast
    qed
  qed
qed

text \<open>
  C6. For every non-empty list of score dictionaries (each has a rouge-2 f-score \<open>g d\<close>,
  which is not negative), \<open>aggregate_test_scores\<close> returns one of them whole, the one at
  an index \<open>i\<close> whose rouge-2 f-score is the highest of the list and strictly higher than
  that of every later entry: the last occurrence of the highest score. The rouge-1 and
  rouge-l values returned are therefore those of that entry.
\<close>

theorem aggregate_test_scores_best:
  assumes "scores \<noteq> []"
    and "\<forall>d \<in> set scores. leaf d ''rouge-2'' ''f'' = Inr (g d) \<and> 0 \<le> g d"
  shows "\<exists>i<length scores. aggregate_test_scores scores = Inr (scores ! i) \<and>
           (\<forall>j<length scores. g (scores ! j) \<le> g (scores ! i)) \<and>
           (\<forall>j. i < j \<and> j < length scores \<longrightarrow> g (scores ! j) < g (scores ! i))"
proof -
  have l: "\<forall>d \<in> set scores. leaf d ''rouge-2'' ''f'' = Inr (g d)"
    using assms(2) by blast
  from aggregate_test_loop_inv [OF l, of 0 Map.empty] obtain b where
    b: "aggregate_test_loop scores 0 Map.empty = Inr b" and
    alt: "(b = Map.empty \<and> (\<forall>d \<in> set scores. g d < 0)) \<or>
          (\<exists>i<length scores. b = scores ! i \<and> 0 \<le> g (scores ! i) \<and>
             (\<forall>j<length scores. g (scores ! j) \<le> g (scores ! i)) \<and>
             (\<forall>j. i < j \<and> j < length scores \<longrightarrow> g (scores ! j) < g (scores ! i)))"
    by blast
  have "\<not> (\<forall>d \<in> set scores. g d < 0)"
    using assms by (cases scores) auto
  with alt b show ?thesis
    unfolding aggregate_test_scores_def by auto
qed

theorem aggregate_test_scores_best_witness:
  "aggregate_test_scores
     [zero_scores(''rouge-2'' \<mapsto> [''f'' \<mapsto> 1/2, ''p'' \<mapsto> 1/2, ''r'' \<mapsto> 1/2],
                  ''rouge-1'' \<mapsto> [''f'' \<mapsto> 1/10, ''p'' \<mapsto> 1/10, ''r'' \<mapsto> 1/10]),
      zero_scores(''rouge-2'' \<mapsto> [''f'' \<mapsto> 1/2, ''p'' \<mapsto> 1/3, ''r'' \<mapsto> 1],
                  ''rouge-1'' \<mapsto> [''f'' \<mapsto> 2/10, ''p'' \<mapsto> 2/10, ''r'' \<mapsto> 2/10]),
      zero_scores(''rouge-2'' \<mapsto> [''f'' \<mapsto> 1/3, ''p'' \<mapsto> 1/3, ''r'' \<mapsto> 1/3],
                  ''rouge-1'' \<mapsto> [''f'' \<mapsto> 9/10, ''p'' \<mapsto> 9/10, ''r'' \<mapsto> 9/10])]
   = Inr (zero_scores(''rouge-2'' \<mapsto> [''f'' \<mapsto> 1/2, ''p'' \<mapsto> 1/3, ''r'' \<mapsto> 1],
                      ''rouge-1'' \<mapsto> [''f'' \<mapsto> 2/10, ''p'' \<mapsto> 2/10, ''r'' \<mapsto> 2/10]))"
proof -
  let ?a = "zero_scores(''rouge-2'' \<mapsto> [''f'' \<mapsto> 1/2, ''p'' \<mapsto> 1/2, ''r'' \<mapsto> 1/2],
                  ''rouge-1'' \<mapsto> [''f'' \<mapsto> 1/10, ''p'' \<mapsto> 1/10, ''r'' \<mapsto> 1/10])"
  let ?b = "zero_scores(''rouge-2'' \<mapsto> [''f'' \<mapsto> 1/2, ''p'' \<mapsto> 1/3, ''r'' \<mapsto> 1],
                  ''rouge-1'' \<mapsto> [''f'' \<mapsto> 2/10, ''p'' \<mapsto> 2/10, ''r'' \<mapsto> 2/10])"
  let ?c = "zero_scores(''rouge-2'' \<mapsto> [''f'' \<mapsto> 1/3, ''p'' \<mapsto> 1/3, ''r'' \<mapsto> 1/3],
                  ''rouge-1'' \<mapsto> [''f'' \<mapsto> 9/10, ''p'' \<mapsto> 9/10, ''r'' \<mapsto> 9/10])"
  let ?g = "\<lambda>d. case leaf d ''rouge-2'' ''f'' of Inl e \<Rightarrow> (0::real) | Inr x \<Rightarrow> x"
  have ga: "?g ?a = 1/2" and gb: "?g ?b = 1/2" and gc: "?g ?c = 1/3"
    by (simp_all add: leaf_def)
  have h1: "[?a, ?b, ?c] \<noteq> []"
    by simp
  have h2: "\<forall>d \<in> set [?a, ?b, ?c]. leaf d ''rouge-2'' ''f'' = Inr (?g d) \<and> 0 \<le> ?g d"
    by (simp add: leaf_def)
  from aggregate_test_scores_best [OF h1 h2] obtain i where
    i: "i < length [?a, ?b, ?c]" and
    r: "aggregate_test_scores [?a, ?b, ?c] = Inr ([?a, ?b, ?c] ! i)" and
    m: "\<forall>j<length [?a, ?b, ?c]. ?g ([?a, ?b, ?c] ! j) \<le> ?g ([?a, ?b, ?c] ! i)" and
    t: "\<forall>j. i < j \<and> j < length [?a, ?b, ?c] \<longrightarrow> ?g ([?a, ?b, ?c] ! j) < ?g ([?a, ?b, ?c] ! i)"
    by blast
  from i have "i = 0 \<or> i = 1 \<or> i = 2"
    by auto
  then have "i = 1"
  proof (elim disjE)
    assume "i = 0"
    with t [rule_format, of 1] ga gb show ?thesis by simp
  next
    assume "i = 1"
    then show ?thesis .
  next
    assume "i = 2"
    with m [rule_format, of 0] ga gc show ?thesis by simp
  qed
  with r show ?thesis
    by simp
qed

section \<open>Invalid aggregation identifiers\<close>

lemma py_max_not_invalid:
  "py_max xs \<noteq> Inl (ValueError (''Invalid aggregation parameter: '' @ a))"
  by (cases xs) simp_all

lemma average_not_invalid:
  "average xs \<noteq> Inl (ValueError (''Invalid aggregation parameter: '' @ a))"
  by (simp add: average_def)

lemma harmonic_scan_not_invalid:
  "harmonic_scan xs \<noteq> Some (Inl (ValueError (''Invalid aggregation parameter: '' @ a)))"
  by (induction xs) simp_all

lemma harmonic_mean_not_invalid:
  "harmonic_mean xs \<noteq> Inl (ValueError (''Invalid aggregation parameter: '' @ a))"
  using harmonic_scan_not_invalid [of xs a]
  by (auto simp: harmonic_mean_def split: option.splits)

lemma aggregate_test_loop_error:
  "aggregate_test_loop ds mx best = Inl e \<Longrightarrow> \<exists>k. e = KeyError k"
  by (induction ds arbitrary: mx best)
     (auto simp: leaf_def split: sum.splits option.splits if_splits)

lemma rouges_loop_error:
  "fst (rouges_loop rouge_model agg is_test references sentences rouges calls) = Inl e \<Longrightarrow>
   (\<exists>xs. agg xs = Inl e) \<or> (\<exists>k. e = KeyError k)"
proof (induction sentences arbitrary: rouges calls)
  case Nil
  then show ?case by simp
next
  case (Cons s rest)
  then show ?case
    by (auto simp: Let_def aggregate_test_scores_def split: if_splits sum.splits
             dest: aggregate_test_loop_error)
qed

lemma reduce_rows_error:
  "reduce_rows f rows = Inl e \<Longrightarrow> \<exists>row. f row = Inl e"
  by (induction rows) (auto split: sum.splits)

lemma compute_rouges_valid:
  assumes "aggregation \<in> {''max'', ''average'', ''harmonic''}"
  shows "fst (compute_rouges rouge_model sentences references aggregation is_test) \<noteq>
         Inl (ValueError (''Invalid aggregation parameter: '' @ a))"
proof
  assume e: "fst (compute_rouges rouge_model sentences references aggregation is_test) =
         Inl (ValueError (''Invalid aggregation parameter: '' @ a))"
  from assms obtain agg where agg: "aggregate_f aggregation = Inr agg"
    and cases: "agg = py_max \<or> agg = average \<or> agg = harmonic_mean"
    by (auto simp: aggregate_f_def)
  from e agg have "fst (rouges_loop rouge_model agg is_test references sentences [] []) =
      Inl (ValueError (''Invalid aggregation parameter: '' @ a))"
    by (simp add: compute_rouges_def)
  from rouges_loop_error [OF this] obtain xs where
    "agg xs = Inl (ValueError (''Invalid aggregation parameter: '' @ a))"
    by auto
  with cases show False
    using py_max_not_invalid average_not_invalid harmonic_mean_not_invalid by metis
qed

lemma compute_similarities_valid:
  assumes "aggregation \<in> {''max'', ''average'', ''harmonic''}"
    and "\<forall>texts. encode texts \<noteq> Inl (ValueError (''Invalid aggregation parameter: '' @ a))"
    and "\<forall>u v. cos_sim u v \<noteq> Inl (ValueError (''Invalid aggregation parameter: '' @ a))"
  shows "fst (compute_similarities cos_sim sentences references (Some encode) aggregation) \<noteq>
         Inl (ValueError (''Invalid aggregation parameter: '' @ a))"
  using assms
  by (auto simp: compute_similarities_def torch_max_def
           dest!: reduce_rows_error split: list.splits sum.splits)

text \<open>
  What holds of the two functions. \<open>compute_rouges\<close> tests the identifier before anything
  else. \<open>compute_similarities\<close> raises the same \<open>ValueError\<close> once the two \<open>encode\<close> calls
  and \<open>cos_sim\<close> have returned. With one of the three identifiers neither function raises
  that error (the collaborators do not raise it either).
\<close>

lemma invalid_aggregation_raises:
  "(aggregation \<notin> {''max'', ''average'', ''harmonic''} \<longrightarrow>
      compute_rouges rouge_model sentences references aggregation is_test =
        (Inl (ValueError (''Invalid aggregation parameter: '' @ aggregation)), []) \<and>
      (encode sentences = Inr e1 \<and> encode references = Inr e2 \<and> cos_sim e1 e2 = Inr m \<longrightarrow>
         compute_similarities cos_sim sentences references (Some encode) aggregation =
           (Inl (ValueError (''Invalid aggregation parameter: '' @ aggregation)),
            [sentences, references]))) \<and>
   (aggregation \<in> {''max'', ''average'', ''harmonic''} \<longrightarrow>
      (\<forall>a. fst (compute_rouges rouge_model sentences references aggregation is_test) \<noteq>
            Inl (ValueError (''Invalid aggregation parameter: '' @ a))))"
proof (intro conjI impI allI)
  assume "aggregation \<notin> {''max'', ''average'', ''harmonic''}"
  then show "compute_rouges rouge_model sentences references aggregation is_test =
        (Inl (ValueError (''Invalid aggregation parameter: '' @ aggregation)), [])"
    by (simp add: compute_rouges_def aggregate_f_def)
next
  assume "aggregation \<notin> {''max'', ''average'', ''harmonic''}"
    and "encode sentences = Inr e1 \<and> encode references = Inr e2 \<and> cos_sim e1 e2 = Inr m"
  then show "compute_similarities cos_sim sentences references (Some encode) aggregation =
           (Inl (ValueError (''Invalid aggregation parameter: '' @ aggregation)),
            [sentences, references])"
    by (simp add: compute_similarities_def)
next
  fix a
  assume "aggregation \<in> {''max'', ''average'', ''harmonic''}"
  then show "fst (compute_rouges rouge_model sentences references aggregation is_test) \<noteq>
            Inl (ValueError (''Invalid aggregation parameter: '' @ a))"
    by (rule compute_rouges_valid)
qed


section \<open>Sentences without an alphabetic character\<close>

lemma rouges_loop_calls:
  "rouges_loop rouge_model agg is_test references sentences rouges calls = (res, calls') \<Longrightarrow>
   \<forall>c \<in> set calls. \<not> skip_sentence (fst c) \<Longrightarrow>
   \<forall>c \<in> set calls'. \<not> skip_sentence (fst c)"
proof (induction sentences arbitrary: rouges calls)
  case Nil
  then show ?case by simp
next
  case (Cons s rest)
  show ?case
  proof (cases "skip_sentence s")
    case True
    with Cons.prems Cons.IH [of _ calls] show ?thesis
      by simp
  next
    case False
    let ?calls = "calls @ map (Pair s) references"
    have inv: "\<forall>c \<in> set ?calls. \<not> skip_sentence (fst c)"
      using Cons.prems(2) False by auto
    have "calls' = ?calls \<or>
          (\<exists>x. rouges_loop rouge_model agg is_test references rest (rouges @ [x]) ?calls = (res, calls'))"
      using Cons.prems(1) False by (auto simp: Let_def split: if_splits sum.splits)
    then show ?thesis
      using inv Cons.IH [OF _ inv] by blast
  qed
qed

lemma rouges_loop_result:
  "rouges_loop rouge_model agg is_test references sentences rouges calls = (Inr out, calls') \<Longrightarrow>
   \<exists>new. out = rouges @ new \<and> length new = length sentences \<and>
     (\<forall>i<length sentences. skip_sentence (sentences ! i) \<longrightarrow> new ! i = zero_val is_test)"
proof (induction sentences arbitrary: rouges calls)
  case Nil
  then show ?case by simp
next
  case (Cons s rest)
  from Cons.prems obtain x c where
    step: "rouges_loop rouge_model agg is_test references rest (rouges @ [x]) c = (Inr out, calls')"
    and x: "skip_sentence s \<longrightarrow> x = zero_val is_test"
    by (auto simp: Let_def zero_val_def split: if_splits sum.splits)
  from Cons.IH [OF step] obtain new where
    new: "out = (rouges @ [x]) @ new" "length new = length rest"
      "\<forall>i<length rest. skip_sentence (rest ! i) \<longrightarrow> new ! i = zero_val is_test"
    by blast
  have "out = rouges @ (x # new) \<and> length (x # new) = length (s # rest) \<and>
     (\<forall>i<length (s # rest). skip_sentence ((s # rest) ! i) \<longrightarrow> (x # new) ! i = zero_val is_test)"
    using new x by (auto simp: nth_Cons split: nat.splits)
  then show ?case by blast
qed

lemma rouges_loop_all_skipped:
  "\<forall>s \<in> set sentences. skip_sentence s \<Longrightarrow>
   rouges_loop rouge_model agg is_test references sentences rouges calls =
     (Inr (rouges @ replicate (length sentences) (zero_val is_test)), calls)"
  by (induction sentences arbitrary: rouges)
     (simp_all add: zero_val_def replicate_append_same)

text \<open>
  C4. A sentence that is empty, whitespace only or without an alphabetic character
  (\<open>skip_sentence\<close>) is never handed to the ROUGE engine, and its entry in the list that
  \<open>compute_rouges\<close> returns is 0.0 in train mode and the all-zero score dictionary in
  test mode. The aggregation identifier is one of the three that \<open>compute_rouges\<close>
  accepts. When every sentence is such a sentence the function returns, with one zero
  entry per sentence and no call of the engine.
\<close>

theorem skipped_sentence_scores_zero:
  assumes "aggregation \<in> {''max'', ''average'', ''harmonic''}"
    and "compute_rouges rouge_model sentences references aggregation is_test = (result, calls)"
  shows "(\<forall>(s, r) \<in> set calls. \<not> skip_sentence s) \<and>
         (\<forall>rouges. result = Inr rouges \<longrightarrow>
            length rouges = length sentences \<and>
            (\<forall>i<length sentences. skip_sentence (sentences ! i) \<longrightarrow>
               rouges ! i = (if is_test then Scores zero_scores else Score 0))) \<and>
         ((\<forall>s \<in> set sentences. skip_sentence s) \<longrightarrow>
            result = Inr (replicate (length sentences)
                       (if is_test then Scores zero_scores else Score 0)) \<and>
            calls = [])"
proof -
  from assms(1) obtain agg where agg: "aggregate_f aggregation = Inr agg"
    by (auto simp: aggregate_f_def)
  with assms(2) have
    loop: "rouges_loop rouge_model agg is_test references sentences [] [] = (result, calls)"
    by (simp add: compute_rouges_def)
  have 1: "\<forall>(s, r) \<in> set calls. \<not> skip_sentence s"
    using rouges_loop_calls [OF loop] by (simp add: case_prod_beta)
  have 2: "length rouges = length sentences \<and>
            (\<forall>i<length sentences. skip_sentence (sentences ! i) \<longrightarrow>
               rouges ! i = (if is_test then Scores zero_scores else Score 0))"
    if "result = Inr rouges" for rouges
    using rouges_loop_result [of rouge_model agg is_test references sentences "[]" "[]" rouges calls]
      loop that
    by (auto simp: zero_val_def)
  have 3: "result = Inr (replicate (length sentences)
                       (if is_test then Scores zero_scores else Score 0)) \<and> calls = []"
    if "\<forall>s \<in> set sentences. skip_sentence s"
    using rouges_loop_all_skipped [OF that, of rouge_model agg is_test references "[]" "[]"] loop
    by (simp add: zero_val_def)
  from 1 2 3 show ?thesis
    by blast
qed

theorem skipped_sentence_scores_zero_witness:
  "compute_rouges (\<lambda>s r. Some zero_scores) ['''', ''123'', ''  ''] [''x''] ''max'' False =
     (Inr [Score 0, Score 0, Score 0], []) \<and>
   compute_rouges (\<lambda>s r. Some zero_scores) ['''', ''123'', ''  ''] [''x''] ''max'' True =
     (Inr [Scores zero_scores, Scores zero_scores, Scores zero_scores], [])"
proof -
  let ?rm = "\<lambda>(s::string) (r::string). Some zero_scores"
  let ?ss = "['''', ''123'', ''  '']"
  have v: "''max'' \<in> {''max'', ''average'', ''harmonic''}"
    by simp
  have sk: "\<forall>s \<in> set ?ss. skip_sentence s"
    by (simp add: skip_sentence_def strip_def isspace_def isalpha_def code_point_def)
  have p: "compute_rouges ?rm ?ss [''x''] ''max'' t =
      (fst (compute_rouges ?rm ?ss [''x''] ''max'' t), snd (compute_rouges ?rm ?ss [''x''] ''max'' t))"
    for t
    by simp
  from skipped_sentence_scores_zero [OF v p [of False]] sk
  have a: "compute_rouges ?rm ?ss [''x''] ''max'' False = (Inr [Score 0, Score 0, Score 0], [])"
    by (simp add: prod_eq_iff numeral_3_eq_3)
  from skipped_sentence_scores_zero [OF v p [of True]] sk
  have b: "compute_rouges ?rm ?ss [''x''] ''max'' True =
      (Inr [Scores zero_scores, Scores zero_scores, Scores zero_scores], [])"
    by (simp add: prod_eq_iff numeral_3_eq_3)
  from a b show ?thesis
    by simp
qed

section \<open>Ranking: descending, stable\<close>

lemma set_sorted_reverse: "set (sorted_reverse key xs) = set xs"
  by (simp add: sorted_reverse_def)

lemma length_sorted_reverse: "length (sorted_reverse key xs) = length xs"
  by (simp add: sorted_reverse_def)

lemma distinct_sorted_reverse: "distinct (sorted_reverse key xs) = distinct xs"
  by (simp add: sorted_reverse_def)

lemma sorted_reverse_descending:
  "sorted_wrt (\<lambda>a b. key b \<le> key a) (sorted_reverse key xs)"
proof -
  have "sorted (map key (sort_key key (rev xs)))"
    by simp
  then have "sorted_wrt (\<lambda>a b. key a \<le> key b) (sort_key key (rev xs))"
    by (simp add: sorted_map)
  then show ?thesis
    by (simp add: sorted_reverse_def sorted_wrt_rev)
qed

lemma sorted_reverse_stable:
  "filter (\<lambda>y. key y = k) (sorted_reverse key xs) = filter (\<lambda>y. key y = k) xs"
proof -
  have "filter (\<lambda>y. key y = k) (sorted_reverse key xs) =
        rev (filter (\<lambda>y. key y = k) (sort_key key (rev xs)))"
    by (simp add: sorted_reverse_def rev_filter)
  also have "\<dots> = rev (filter (\<lambda>y. key y = k) (rev xs))"
    by (simp only: sort_key_stable)
  also have "\<dots> = filter (\<lambda>y. key y = k) xs"
    by (simp add: rev_filter)
  finally show ?thesis .
qed

lemma sorted_wrt_filter_nth:
  "sorted_wrt R (filter P xs) \<Longrightarrow> a < b \<Longrightarrow> b < length xs \<Longrightarrow> P (xs ! a) \<Longrightarrow> P (xs ! b) \<Longrightarrow>
   R (xs ! a) (xs ! b)"
proof (induction xs arbitrary: a b)
  case Nil
  then show ?case by simp
next
  case (Cons x xs)
  from Cons.prems(2) obtain b' where b: "b = Suc b'"
    by (cases b) auto
  have tail: "sorted_wrt R (filter P xs)"
    using Cons.prems(1) by (auto split: if_splits)
  show ?case
  proof (cases a)
    case 0
    then have "P x" using Cons.prems(4) by simp
    moreover have "xs ! b' \<in> set (filter P xs)"
      using Cons.prems(3,5) b by simp
    ultimately show ?thesis
      using Cons.prems(1) 0 b by simp
  next
    case (Suc a')
    then show ?thesis
      using Cons.IH [OF tail, of a' b'] Cons.prems b by simp
  qed
qed

lemma sorted_reverse_indices:
  assumes "a < b" and "b < n"
  shows "key (sorted_reverse key [0..<n] ! b) < key (sorted_reverse key [0..<n] ! a) \<or>
         (key (sorted_reverse key [0..<n] ! a) = key (sorted_reverse key [0..<n] ! b) \<and>
          sorted_reverse key [0..<n] ! a < sorted_reverse key [0..<n] ! b)"
proof -
  let ?idx = "sorted_reverse key [0..<n]"
  have len: "length ?idx = n"
    by (simp add: length_sorted_reverse)
  have ge: "key (?idx ! b) \<le> key (?idx ! a)"
    using sorted_reverse_descending [of key "[0..<n]"] assms len
    by (simp add: sorted_wrt_iff_nth_less)
  show ?thesis
  proof (cases "key (?idx ! b) = key (?idx ! a)")
    case False
    with ge show ?thesis by simp
  next
    case True
    let ?k = "key (?idx ! a)"
    have "sorted_wrt (<) (filter (\<lambda>y. key y = ?k) [0..<n])"
      by (simp add: sorted_wrt_filter)
    then have "sorted_wrt (<) (filter (\<lambda>y. key y = ?k) ?idx)"
      by (simp only: sorted_reverse_stable)
    from sorted_wrt_filter_nth [OF this assms(1)] assms(2) len True
    have "?idx ! a < ?idx ! b"
      by simp
    with True show ?thesis by simp
  qed
qed

text \<open>
  When the model call gives the list of one score per sentence, \<open>get_scores\<close> returns
  the sentences and their scores as two parallel lists: both are read through the same
  list \<open>idx\<close> of indices, a rearrangement of the indices of the input, along which the
  scores never increase and equal scores keep the order of the input. With the scores
  0.2, 0.9, 0.5 for the sentences a, b, c it returns b, c, a and 0.9, 0.5, 0.2.
\<close>

lemma get_scores_sorted:
  "(model (tokenizer sentences (replicate (length sentences) context)) = PyList scores \<and>
    length scores = length sentences \<longrightarrow>
      (\<exists>idx. get_scores sentences context model tokenizer =
           Inr (map (\<lambda>i. sentences ! i) idx, map (\<lambda>i. scores ! i) idx) \<and>
         length idx = length sentences \<and> set idx = {0..<length sentences} \<and> distinct idx \<and>
         (\<forall>a b. a < b \<and> b < length idx \<longrightarrow>
            scores ! (idx ! b) < scores ! (idx ! a) \<or>
            (scores ! (idx ! a) = scores ! (idx ! b) \<and> idx ! a < idx ! b)))) \<and>
   get_scores [''a'', ''b'', ''c''] context (\<lambda>inputs. PyList [2/10, 9/10, 5/10]) tokenizer =
     Inr ([''b'', ''c'', ''a''], [9/10, 5/10, 2/10])"
proof (intro conjI impI)
  let ?idx = "sorted_reverse (\<lambda>i. scores ! i) [0..<length sentences]"
  assume h: "model (tokenizer sentences (replicate (length sentences) context)) = PyList scores \<and>
    length scores = length sentences"
  have g: "get_scores sentences context model tokenizer =
           Inr (map (\<lambda>i. sentences ! i) ?idx, map (\<lambda>i. scores ! i) ?idx)"
    using h by (simp add: get_scores_def Let_def set_sorted_reverse)
  have p: "length ?idx = length sentences \<and> set ?idx = {0..<length sentences} \<and> distinct ?idx"
    by (simp add: length_sorted_reverse set_sorted_reverse distinct_sorted_reverse)
  have o: "\<forall>a b. a < b \<and> b < length ?idx \<longrightarrow>
            scores ! (?idx ! b) < scores ! (?idx ! a) \<or>
            (scores ! (?idx ! a) = scores ! (?idx ! b) \<and> ?idx ! a < ?idx ! b)"
    using sorted_reverse_indices [of _ _ "length sentences" "\<lambda>i. scores ! i"]
    by (simp add: length_sorted_reverse)
  from g p o show "\<exists>idx. get_scores sentences context model tokenizer =
           Inr (map (\<lambda>i. sentences ! i) idx, map (\<lambda>i. scores ! i) idx) \<and>
         length idx = length sentences \<and> set idx = {0..<length sentences} \<and> distinct idx \<and>
         (\<forall>a b. a < b \<and> b < length idx \<longrightarrow>
            scores ! (idx ! b) < scores ! (idx ! a) \<or>
            (scores ! (idx ! a) = scores ! (idx ! b) \<and> idx ! a < idx ! b))"
    by blast
next
  have u: "[0..<length [2/10, 9/10, 5/10 :: real]] = [0, 1, 2]"
    by (simp add: upt_rec)
  show "get_scores [''a'', ''b'', ''c''] context (\<lambda>inputs. PyList [2/10, 9/10, 5/10]) tokenizer =
     Inr ([''b'', ''c'', ''a''], [9/10, 5/10, 2/10])"
    unfolding get_scores_def Let_def sorted_reverse_def py_scores.case u
    by simp
qed

lemma get_scores_sorted_example:
  "length ([2/10, 9/10, 5/10] :: real list) = length [''a'', ''b'', ''c''] \<and>
   (\<exists>idx. get_scores [''a'', ''b'', ''c''] ''the article''
            (\<lambda>inputs. PyList [2/10, 9/10, 5/10]) (\<lambda>s c. ()) =
            Inr (map (\<lambda>i. [''a'', ''b'', ''c''] ! i) idx, map (\<lambda>i. [2/10, 9/10, 5/10] ! i) idx) \<and>
          length idx = 3 \<and> distinct idx) \<and>
   get_scores [''a'', ''b'', ''c''] ''the article'' (\<lambda>inputs. PyList [2/10, 9/10, 5/10]) (\<lambda>s c. ()) =
     Inr ([''b'', ''c'', ''a''], [9/10, 5/10, 2/10])"
proof -
  let ?model = "\<lambda>inputs::unit. PyList [2/10, 9/10, 5/10]"
  let ?tokenizer = "\<lambda>(s::string list) (c::string list). ()"
  have h: "?model (?tokenizer [''a'', ''b'', ''c''] (replicate (length [''a'', ''b'', ''c'']) ''the article''))
             = PyList [2/10, 9/10, 5/10] \<and>
           length ([2/10, 9/10, 5/10] :: real list) = length [''a'', ''b'', ''c'']"
    by simp
  note t = get_scores_sorted [of ?model ?tokenizer "[''a'', ''b'', ''c'']" "''the article''"
      "[2/10, 9/10, 5/10]"]
  from t h obtain idx where
    "get_scores [''a'', ''b'', ''c''] ''the article'' ?model ?tokenizer =
       Inr (map (\<lambda>i. [''a'', ''b'', ''c''] ! i) idx, map (\<lambda>i. [2/10, 9/10, 5/10] ! i) idx)"
    "length idx = length [''a'', ''b'', ''c'']" "distinct idx"
    by blast
  then have 1: "\<exists>idx. get_scores [''a'', ''b'', ''c''] ''the article'' ?model ?tokenizer =
            Inr (map (\<lambda>i. [''a'', ''b'', ''c''] ! i) idx, map (\<lambda>i. [2/10, 9/10, 5/10] ! i) idx) \<and>
          length idx = 3 \<and> distinct idx"
    by auto
  from t have 2: "get_scores [''a'', ''b'', ''c''] ''the article'' ?model ?tokenizer =
     Inr ([''b'', ''c'', ''a''], [9/10, 5/10, 2/10])"
    by blast
  from 1 2 show ?thesis
    by simp
qed

text \<open>
  C9 (the code departs from the claim). For three sentences with the scores 0.2, 0.9, 0.5
  \<open>get_scores\<close> returns b, c, a and 0.9, 0.5, 0.2, as claimed. For one sentence it returns
  nothing: \<open>outputs.logits.squeeze().tolist()\<close> is then a float, not a list, and
  \<open>len(scores)\<close> raises \<open>TypeError\<close> (utils.py lines 308-309), where the claim has the
  sentence and its score.
\<close>

theorem get_scores_single_sentence:
  "get_scores [s] context (\<lambda>inputs. squeeze_tolist [x]) tokenizer = Inl TypeError \<and>
   get_scores [''a''] ''the article'' (\<lambda>inputs. squeeze_tolist [7/10]) (\<lambda>s c. ()) =
     Inl TypeError \<and>
   get_scores [''a'', ''b'', ''c''] ''the article''
       (\<lambda>inputs. squeeze_tolist [2/10, 9/10, 5/10]) (\<lambda>s c. ()) =
     Inr ([''b'', ''c'', ''a''], [9/10, 5/10, 2/10])"
proof -
  have one: "get_scores [s] context (\<lambda>inputs. squeeze_tolist [x]) tokenizer = Inl TypeError"
    by (simp add: get_scores_def squeeze_tolist_def)
  have a: "get_scores [''a''] ''the article'' (\<lambda>inputs. squeeze_tolist [7/10]) (\<lambda>s c. ()) =
     Inl TypeError"
    by (simp add: get_scores_def squeeze_tolist_def)
  have u: "[0..<length [2/10, 9/10, 5/10 :: real]] = [0, 1, 2]"
    by (simp add: upt_rec)
  have three: "get_scores [''a'', ''b'', ''c''] ''the article''
       (\<lambda>inputs. squeeze_tolist [2/10, 9/10, 5/10]) (\<lambda>s c. ()) =
     Inr ([''b'', ''c'', ''a''], [9/10, 5/10, 2/10])"
    unfolding get_scores_def Let_def sorted_reverse_def squeeze_tolist_def list.case py_scores.case u
    by simp
  from one a three show ?thesis
    by (intro conjI)
qed

section \<open>The unbound name \<open>compute_labels\<close>\<close>

lemma evaluate_article_unbound:
  "\<exists>e. evaluate_article None highlights_pred highlights_gt = Inl e"
  by (cases highlights_pred) (simp_all add: evaluate_article_def compute_avg_dict_empty)

lemma process_article_unbound:
  "\<exists>e. process_article None model tokenizer num_highlight sents c hl = Inl e"
proof (cases "get_scores sents c model tokenizer")
  case (Inl e)
  then show ?thesis by (simp add: process_article_def)
next
  case (Inr ranked)
  obtain ranked_sents ranked_scores where "ranked = (ranked_sents, ranked_scores)"
    by (cases ranked)
  with Inr evaluate_article_unbound [of "slice_to ranked_sents num_highlight" hl]
  show ?thesis by (auto simp: process_article_def)
qed

lemma evaluate_loop_opens:
  "evaluate_loop compute_labels model tokenizer num_highlight dataset cc sents ch rouges sims =
     Inr (cc', sents', ch', rouges', sims') \<Longrightarrow>
   cc \<noteq> None \<or> dataset \<noteq> [] \<Longrightarrow> cc' \<noteq> None"
proof (induction dataset arbitrary: cc sents ch rouges sims)
  case Nil
  then show ?case by simp
next
  case (Cons ex rest)
  from Cons.prems(1) show ?case
    by (auto simp: Let_def split: if_splits option.splits sum.splits dest: Cons.IH)
qed

lemma evaluate_model_groups_unbound:
  assumes "dataset \<noteq> []"
  shows "\<exists>e. evaluate_model_groups None dataset model tokenizer num_highlight = Inl e"
proof (cases "evaluate_loop None model tokenizer num_highlight dataset None [] None [] []")
  case (Inl e)
  then show ?thesis by (simp add: evaluate_model_groups_def)
next
  case (Inr st)
  obtain cc sents ch rouges sims where st: "st = (cc, sents, ch, rouges, sims)"
    by (cases st)
  with Inr evaluate_loop_opens [of None model tokenizer num_highlight dataset None "[]" None "[]" "[]"
      cc sents ch rouges sims] assms
  obtain c where c: "cc = Some c"
    by auto
  from process_article_unbound [of model tokenizer num_highlight sents c ch]
  obtain e where "process_article None model tokenizer num_highlight sents c ch = Inl e"
    by blast
  with Inr st c show ?thesis
    by (simp add: evaluate_model_groups_def)
qed

lemma utils_lacks_compute_labels: "''compute_labels'' \<notin> set utils_names"
  by (simp add: utils_names_def math_names_def)

lemma import_fails:
  "import_from utils_names test_imports = Inl (ImportError ''compute_labels'')"
  by (simp add: test_imports_def utils_names_def math_names_def)

text \<open>
  C10. utils.py binds no name \<open>compute_labels\<close>, so the import of test.py line 5 raises
  \<open>ImportError\<close>, and with the name unbound every closing of a group raises instead of
  returning a pair (\<open>NameError\<close> at the first predicted highlight, \<open>ZeroDivisionError\<close>
  when there is none, or the exception of \<open>get_scores\<close>). Hence for every non-empty dataset
  \<open>evaluate_model\<close> raises and produces no result.
\<close>

theorem compute_labels_missing:
  "''compute_labels'' \<notin> set utils_names \<and>
   import_from utils_names test_imports = Inl (ImportError ''compute_labels'') \<and>
   (\<forall>sents c hl. \<exists>e. process_article None model tokenizer num_highlight sents c hl = Inl e) \<and>
   (dataset \<noteq> [] \<longrightarrow>
      (\<exists>e. evaluate_model_groups None dataset model tokenizer num_highlight = Inl e) \<and>
      (\<exists>e. evaluate_model None dataset model tokenizer num_highlight = Inl e))"
proof (intro conjI impI allI)
  show "''compute_labels'' \<notin> set utils_names"
    by (rule utils_lacks_compute_labels)
  show "import_from utils_names test_imports = Inl (ImportError ''compute_labels'')"
    by (rule import_fails)
  show "\<exists>e. process_article None model tokenizer num_highlight sents c hl = Inl e" for sents c hl
    by (rule process_article_unbound)
next
  assume "dataset \<noteq> []"
  then show "\<exists>e. evaluate_model_groups None dataset model tokenizer num_highlight = Inl e"
    by (rule evaluate_model_groups_unbound)
next
  assume "dataset \<noteq> []"
  from evaluate_model_groups_unbound [OF this, of model tokenizer num_highlight]
  show "\<exists>e. evaluate_model None dataset model tokenizer num_highlight = Inl e"
    by (auto simp: evaluate_model_def)
qed

theorem compute_labels_missing_witness:
  "[\<lparr>highlights = ''one line'', sentence = ''A sentence.'', ctxt = ''An article.''\<rparr>,
    \<lparr>highlights = ''one line'', sentence = ''Another one.'', ctxt = ''An article.''\<rparr>] \<noteq> [] \<and>
   (\<exists>e. evaluate_model None
          [\<lparr>highlights = ''one line'', sentence = ''A sentence.'', ctxt = ''An article.''\<rparr>,
           \<lparr>highlights = ''one line'', sentence = ''Another one.'', ctxt = ''An article.''\<rparr>]
          (\<lambda>n. PyList (replicate n 1)) (\<lambda>s c. length s) 3 = Inl e) \<and>
   evaluate_model None
     [\<lparr>highlights = ''one line'', sentence = ''A sentence.'', ctxt = ''An article.''\<rparr>,
      \<lparr>highlights = ''one line'', sentence = ''Another one.'', ctxt = ''An article.''\<rparr>]
     (\<lambda>n. PyList (replicate n 1)) (\<lambda>s c. length s) 3 = Inl (NameError ''compute_labels'')"
proof -
  let ?ds = "[\<lparr>highlights = ''one line'', sentence = ''A sentence.'', ctxt = ''An article.''\<rparr>,
      \<lparr>highlights = ''one line'', sentence = ''Another one.'', ctxt = ''An article.''\<rparr>]"
  have h: "?ds \<noteq> []"
    by simp
  have g: "get_scores [''A sentence.'', ''Another one.''] ''An article.''
             (\<lambda>n. PyList (replicate n 1)) (\<lambda>s c. length s) =
           Inr ([''A sentence.'', ''Another one.''], [1, 1])"
    by (simp add: get_scores_def sorted_reverse_def Let_def)
  have v: "evaluate_model None ?ds (\<lambda>n. PyList (replicate n 1)) (\<lambda>s c. length s) 3 =
           Inl (NameError ''compute_labels'')"
    by (simp add: evaluate_model_def evaluate_model_groups_def process_article_def g
         evaluate_article_def slice_to_def Let_def)
  from compute_labels_missing
    [where model = "\<lambda>n. PyList (replicate n 1)" and tokenizer = "\<lambda>s c. length s"
       and num_highlight = 3 and dataset = ?ds] h v
  show ?thesis
    by blast
qed

section \<open>Grouping by runs of one context\<close>

lemma evaluate_model_groups_finish:
  "evaluate_model_groups cl dataset model tokenizer k =
   finish_groups cl model tokenizer k (evaluate_loop cl model tokenizer k dataset None [] None [] [])"
  by (simp add: evaluate_model_groups_def finish_groups_def)

lemma finish_loop_close_all:
  "finish_groups cl model tokenizer k
     (evaluate_loop cl model tokenizer k rest (Some c) sents ch rouges sims) =
   close_all cl model tokenizer k (open_groups c sents ch rest) rouges sims"
proof (induction rest arbitrary: c sents ch rouges sims)
  case Nil
  show ?case
    by (simp add: finish_groups_def split: sum.splits prod.splits)
next
  case (Cons ex rest)
  show ?case
  proof (cases "ctxt ex = c")
    case True
    then show ?thesis
      using Cons.IH [of c "sents @ [sentence ex]" ch rouges sims] by simp
  next
    case False
    show ?thesis
    proof (cases "process_article cl model tokenizer k sents c (Some (split_on newline (highlights ex)))")
      case (Inl e)
      with False show ?thesis
        by (simp add: finish_groups_def Let_def)
    next
      case (Inr r)
      obtain d s where r: "r = (d, s)" by (cases r)
      with Inr False show ?thesis
        using Cons.IH [of "ctxt ex" "[sentence ex]" "Some (split_on newline (highlights ex))"
            "rouges @ [d]" "sims @ [s]"]
        by (simp add: Let_def)
    qed
  qed
qed

lemma evaluate_model_groups_close_all:
  "evaluate_model_groups cl (ex # rest) model tokenizer k =
   close_all cl model tokenizer k
     (open_groups (ctxt ex) [sentence ex] (Some (split_on newline (highlights ex))) rest) [] []"
  using finish_loop_close_all
    [of cl model tokenizer k rest "ctxt ex" "[sentence ex]" "Some (split_on newline (highlights ex))" "[]" "[]"]
  by (simp add: evaluate_model_groups_finish Let_def)

lemma context_runs_append:
  assumes "pre \<noteq> []" and "\<forall>x \<in> set pre. ctxt x = c"
  shows "context_runs (pre @ rest) =
         (pre @ takeWhile (\<lambda>y. ctxt y = c) rest) # context_runs (dropWhile (\<lambda>y. ctxt y = c) rest)"
proof -
  obtain x xs where pre: "pre = x # xs"
    using assms(1) by (cases pre) auto
  have all: "\<forall>y \<in> set xs. ctxt y = ctxt x" and cx: "ctxt x = c"
    using assms(2) pre by auto
  have t: "takeWhile (\<lambda>y. ctxt y = ctxt x) (xs @ rest) = xs @ takeWhile (\<lambda>y. ctxt y = ctxt x) rest"
    using all by simp
  have d: "dropWhile (\<lambda>y. ctxt y = ctxt x) (xs @ rest) = dropWhile (\<lambda>y. ctxt y = ctxt x) rest"
    using all by simp
  show ?thesis
    using t d cx by (simp add: pre)
qed

lemma open_groups_runs:
  assumes "pre \<noteq> []" and "\<forall>x \<in> set pre. ctxt x = c"
  shows "map (\<lambda>(sents, c, hl). (sents, c)) (open_groups c (map sentence pre) ch rest) =
         map (\<lambda>run. (map sentence run, ctxt (hd run))) (context_runs (pre @ rest))"
  using assms
proof (induction rest arbitrary: pre c ch)
  case Nil
  have "context_runs (pre @ []) = [pre]"
    using context_runs_append [OF Nil.prems, of "[]"] by simp
  moreover have "ctxt (hd pre) = c"
    using Nil.prems by simp
  ultimately show ?case
    by simp
next
  case (Cons ex rest)
  show ?case
  proof (cases "ctxt ex = c")
    case True
    have "map (\<lambda>(sents, c, hl). (sents, c)) (open_groups c (map sentence (pre @ [ex])) ch rest) =
          map (\<lambda>run. (map sentence run, ctxt (hd run))) (context_runs ((pre @ [ex]) @ rest))"
      using Cons.prems True by (intro Cons.IH) auto
    with True show ?thesis by simp
  next
    case False
    have runs: "context_runs (pre @ ex # rest) = pre # context_runs ([ex] @ rest)"
      using context_runs_append [OF Cons.prems, of "ex # rest"] False by simp
    have "map (\<lambda>(sents, c, hl). (sents, c))
            (open_groups (ctxt ex) (map sentence [ex]) (Some (split_on newline (highlights ex))) rest) =
          map (\<lambda>run. (map sentence run, ctxt (hd run))) (context_runs ([ex] @ rest))"
      by (intro Cons.IH) auto
    with False runs Cons.prems show ?thesis
      by (cases pre) auto
  qed
qed

lemma close_all_results:
  "close_all cl model tokenizer k groups rouges sims = Inr (R, S) \<Longrightarrow>
   \<exists>newR newS. R = rouges @ newR \<and> S = sims @ newS \<and>
     length newR = length groups \<and> length newS = length groups \<and>
     (\<forall>i<length groups.
        process_article cl model tokenizer k (fst (groups ! i)) (fst (snd (groups ! i)))
          (snd (snd (groups ! i))) = Inr (newR ! i, newS ! i))"
proof (induction groups arbitrary: rouges sims)
  case Nil
  then show ?case by simp
next
  case (Cons g groups)
  obtain sents c hl where g: "g = (sents, c, hl)"
    by (cases g)
  from Cons.prems g obtain d s where
    p: "process_article cl model tokenizer k sents c hl = Inr (d, s)" and
    rest: "close_all cl model tokenizer k groups (rouges @ [d]) (sims @ [s]) = Inr (R, S)"
    by (auto split: sum.splits)
  from Cons.IH [OF rest] obtain newR newS where
    n: "R = (rouges @ [d]) @ newR" "S = (sims @ [s]) @ newS"
      "length newR = length groups" "length newS = length groups"
      "\<forall>i<length groups.
        process_article cl model tokenizer k (fst (groups ! i)) (fst (snd (groups ! i)))
          (snd (snd (groups ! i))) = Inr (newR ! i, newS ! i)"
    by blast
  have "R = rouges @ (d # newR) \<and> S = sims @ (s # newS) \<and>
     length (d # newR) = length (g # groups) \<and> length (s # newS) = length (g # groups) \<and>
     (\<forall>i<length (g # groups).
        process_article cl model tokenizer k (fst ((g # groups) ! i)) (fst (snd ((g # groups) ! i)))
          (snd (snd ((g # groups) ! i))) = Inr ((d # newR) ! i, (s # newS) ! i))"
    using n p g by (auto simp: nth_Cons split: nat.splits)
  then show ?case by blast
qed

lemma close_all_total:
  "\<forall>g \<in> set groups. \<exists>r. process_article cl model tokenizer k (fst g) (fst (snd g)) (snd (snd g)) = Inr r \<Longrightarrow>
   \<exists>R S. close_all cl model tokenizer k groups rouges sims = Inr (R, S)"
proof (induction groups arbitrary: rouges sims)
  case Nil
  show ?case by simp
next
  case (Cons g groups)
  obtain sents c hl where g: "g = (sents, c, hl)"
    by (cases g)
  from Cons.prems g obtain d s where
    p: "process_article cl model tokenizer k sents c hl = Inr (d, s)"
    by fastforce
  from Cons.IH [of "rouges @ [d]" "sims @ [s]"] Cons.prems
  obtain R S where "close_all cl model tokenizer k groups (rouges @ [d]) (sims @ [s]) = Inr (R, S)"
    by auto
  with p g show ?case by simp
qed

lemma concat_context_runs: "concat (context_runs dataset) = dataset"
  by (induction dataset rule: context_runs.induct) simp_all

lemma context_runs_same_context:
  "run \<in> set (context_runs dataset) \<Longrightarrow> run \<noteq> [] \<and> (\<forall>x \<in> set run. ctxt x = ctxt (hd run))"
proof (induction dataset arbitrary: run rule: context_runs.induct)
  case 1
  then show ?case by simp
next
  case (2 x xs)
  have "context_runs (x # xs) =
      (x # takeWhile (\<lambda>y. ctxt y = ctxt x) xs) # context_runs (dropWhile (\<lambda>y. ctxt y = ctxt x) xs)"
    by (simp only: context_runs.simps)
  with "2.prems" have
    "run = x # takeWhile (\<lambda>y. ctxt y = ctxt x) xs \<or>
     run \<in> set (context_runs (dropWhile (\<lambda>y. ctxt y = ctxt x) xs))"
    by (simp only: list.set insert_iff)
  then show ?case
  proof
    assume r: "run = x # takeWhile (\<lambda>y. ctxt y = ctxt x) xs"
    have "ctxt z = ctxt x" if "z \<in> set (x # takeWhile (\<lambda>y. ctxt y = ctxt x) xs)" for z
      using that by (metis set_ConsD set_takeWhileD)
    then show ?thesis
      unfolding r list.sel by blast
  next
    assume "run \<in> set (context_runs (dropWhile (\<lambda>y. ctxt y = ctxt x) xs))"
    then show ?thesis
      by (rule "2.IH")
  qed
qed

lemma hd_context_runs:
  "context_runs dataset \<noteq> [] \<Longrightarrow> hd (hd (context_runs dataset)) = hd dataset"
  by (cases dataset) simp_all

lemma context_runs_maximal:
  "successively (\<lambda>r1 r2. ctxt (hd r1) \<noteq> ctxt (hd r2)) (context_runs dataset)"
proof (induction dataset rule: context_runs.induct)
  case 1
  show ?case by simp
next
  case (2 x xs)
  let ?rest = "dropWhile (\<lambda>y. ctxt y = ctxt x) xs"
  have ih: "successively (\<lambda>r1 r2. ctxt (hd r1) \<noteq> ctxt (hd r2)) (context_runs ?rest)"
    by (rule 2)
  have unfold: "context_runs (x # xs) =
      (x # takeWhile (\<lambda>y. ctxt y = ctxt x) xs) # context_runs ?rest"
    by (simp only: context_runs.simps)
  show ?case
  proof (cases ?rest)
    case Nil
    then have "context_runs ?rest = []"
      by (simp only: context_runs.simps)
    then show ?thesis
      by (simp only: unfold successively.simps)
  next
    case (Cons y ys)
    have "?rest \<noteq> []"
      by (simp only: Cons) simp
    then have "\<not> ctxt (hd ?rest) = ctxt x"
      by (rule hd_dropWhile)
    moreover have "hd ?rest = y"
      by (simp only: Cons list.sel)
    ultimately have ny: "ctxt y \<noteq> ctxt x"
      by (simp only:) simp
    have r: "context_runs ?rest =
        (y # takeWhile (\<lambda>z. ctxt z = ctxt y) ys) # context_runs (dropWhile (\<lambda>z. ctxt z = ctxt y) ys)"
      by (simp only: Cons context_runs.simps)
    have "successively (\<lambda>r1 r2. ctxt (hd r1) \<noteq> ctxt (hd r2))
            ((x # takeWhile (\<lambda>y. ctxt y = ctxt x) xs) #
             (y # takeWhile (\<lambda>z. ctxt z = ctxt y) ys) #
             context_runs (dropWhile (\<lambda>z. ctxt z = ctxt y) ys))"
      using ih ny unfolding r by simp
    then show ?thesis
      by (simp only: unfold r)
  qed
qed

lemma get_scores_returns:
  assumes "model (tokenizer sents (replicate (length sents) c)) = PyList scores"
    and "length scores = length sents"
  shows "\<exists>ranked ranked_scores. get_scores sents c model tokenizer = Inr (ranked, ranked_scores) \<and>
           length ranked = length sents"
  using assms
  by (simp add: get_scores_def Let_def set_sorted_reverse length_sorted_reverse)

lemma article_loop_total:
  assumes "\<forall>h g. \<exists>d s. f h g = Inr (d, s) \<and>
             (\<forall>key \<in> set keys. \<forall>metric \<in> set metrics. \<exists>v. leaf d key metric = Inr v)"
  shows "\<exists>ds ss. article_loop (Some f) preds gt rouges sims = Inr (rouges @ ds, sims @ ss) \<and>
           length ds = length preds \<and>
           (\<forall>d \<in> set ds. \<forall>key \<in> set keys. \<forall>metric \<in> set metrics. \<exists>v. leaf d key metric = Inr v)"
proof (induction preds arbitrary: rouges sims)
  case Nil
  show ?case by simp
next
  case (Cons h rest)
  from assms obtain d s where
    fh: "f h gt = Inr (d, s)" and
    cd: "\<forall>key \<in> set keys. \<forall>metric \<in> set metrics. \<exists>v. leaf d key metric = Inr v"
    by blast
  from Cons.IH [of "rouges @ [d]" "sims @ [s]"] obtain ds ss where
    r: "article_loop (Some f) rest gt (rouges @ [d]) (sims @ [s]) =
          Inr ((rouges @ [d]) @ ds, (sims @ [s]) @ ss)" and
    l: "length ds = length rest" and
    c: "\<forall>d \<in> set ds. \<forall>key \<in> set keys. \<forall>metric \<in> set metrics. \<exists>v. leaf d key metric = Inr v"
    by blast
  have "article_loop (Some f) (h # rest) gt rouges sims = Inr (rouges @ (d # ds), sims @ (s # ss))"
    using fh r by simp
  moreover have "length (d # ds) = length (h # rest)"
    using l by simp
  moreover have "\<forall>d \<in> set (d # ds). \<forall>key \<in> set keys. \<forall>metric \<in> set metrics.
      \<exists>v. leaf d key metric = Inr v"
    using cd c by auto
  ultimately show ?case
    by blast
qed

lemma compute_avg_dict_returns:
  assumes "ds \<noteq> []"
    and "\<forall>d \<in> set ds. \<forall>key \<in> set keys. \<forall>metric \<in> set metrics. \<exists>v. leaf d key metric = Inr v"
  shows "\<exists>avg. compute_avg_dict ds = Inr avg"
proof -
  let ?v = "\<lambda>d key metric. case leaf d key metric of Inl e \<Rightarrow> (0::real) | Inr x \<Rightarrow> x"
  have "\<forall>d \<in> set ds. \<forall>key \<in> set keys. \<forall>metric \<in> set metrics.
          leaf d key metric = Inr (?v d key metric)"
  proof (intro ballI)
    fix d key metric
    assume "d \<in> set ds" "key \<in> set keys" "metric \<in> set metrics"
    with assms(2) obtain v where "leaf d key metric = Inr v"
      by blast
    then show "leaf d key metric = Inr (?v d key metric)"
      by simp
  qed
  from compute_avg_dict_value [OF assms(1) this] show ?thesis
    by blast
qed

lemma process_article_total:
  assumes f: "\<forall>h g. \<exists>d s. f h g = Inr (d, s) \<and>
             (\<forall>key \<in> set keys. \<forall>metric \<in> set metrics. \<exists>v. leaf d key metric = Inr v)"
    and m: "model (tokenizer sents (replicate (length sents) c)) = PyList scores"
    and len: "length scores = length sents"
    and ne: "sents \<noteq> []"
    and k: "0 < k"
  shows "\<exists>r. process_article (Some f) model tokenizer k sents c hl = Inr r"
proof -
  from get_scores_returns [of model tokenizer sents c scores] m len
  obtain ranked ranked_scores where
    g: "get_scores sents c model tokenizer = Inr (ranked, ranked_scores)" and
    lr: "length ranked = length sents"
    by blast
  have pn: "slice_to ranked k \<noteq> []"
    using k lr ne by (auto simp: slice_to_def)
  from article_loop_total [OF f, of "slice_to ranked k" hl "[]" "[]"] obtain ds ss where
    a: "article_loop (Some f) (slice_to ranked k) hl [] [] = Inr (ds, ss)" and
    l: "length ds = length (slice_to ranked k)" and
    c: "\<forall>d \<in> set ds. \<forall>key \<in> set keys. \<forall>metric \<in> set metrics. \<exists>v. leaf d key metric = Inr v"
    by auto
  have "ds \<noteq> []"
    using l pn by auto
  from compute_avg_dict_returns [OF this c] obtain avg where "compute_avg_dict ds = Inr avg"
    by blast
  with g a show ?thesis
    by (simp add: process_article_def evaluate_article_def)
qed

text \<open>
  For every non-empty dataset, the runs \<open>context_runs dataset\<close> are the maximal runs of
  rows with one context (they make up the dataset, each has one context, neighbours have
  different ones). Whenever \<open>evaluate_model\<close> gets through its groups it has appended
  exactly one result per run, in order, and the result of a run is that of ranking and
  evaluating exactly the sentences of that run against its context; the last run is closed
  after the loop. It gets through its groups whenever the closing of every run returns. The
  name \<open>compute_labels\<close> is bound to \<open>cl\<close> here.
\<close>

lemma evaluate_model_groups_runs:
  assumes "dataset \<noteq> []"
  shows "concat (context_runs dataset) = dataset \<and>
         (\<forall>run \<in> set (context_runs dataset). run \<noteq> [] \<and> (\<forall>x \<in> set run. ctxt x = ctxt (hd run))) \<and>
         successively (\<lambda>r1 r2. ctxt (hd r1) \<noteq> ctxt (hd r2)) (context_runs dataset) \<and>
         (\<forall>rouges sims.
            evaluate_model_groups cl dataset model tokenizer k = Inr (rouges, sims) \<longrightarrow>
            length rouges = length (context_runs dataset) \<and>
            length sims = length (context_runs dataset) \<and>
            (\<forall>i<length (context_runs dataset). \<exists>hl.
               process_article cl model tokenizer k
                 (map sentence (context_runs dataset ! i)) (ctxt (hd (context_runs dataset ! i))) hl =
               Inr (rouges ! i, sims ! i))) \<and>
         ((\<forall>run \<in> set (context_runs dataset). \<forall>hl. \<exists>r.
              process_article cl model tokenizer k (map sentence run) (ctxt (hd run)) hl = Inr r) \<longrightarrow>
          (\<exists>rouges sims. evaluate_model_groups cl dataset model tokenizer k = Inr (rouges, sims)))"
proof -
  obtain ex rest where ds: "dataset = ex # rest"
    using assms by (cases dataset) auto
  let ?G = "open_groups (ctxt ex) [sentence ex] (Some (split_on newline (highlights ex))) rest"
  let ?runs = "context_runs dataset"
  have run: "evaluate_model_groups cl dataset model tokenizer k =
             close_all cl model tokenizer k ?G [] []"
    by (simp add: ds evaluate_model_groups_close_all)
  have proj: "map (\<lambda>(sents, c, hl). (sents, c)) ?G =
              map (\<lambda>run. (map sentence run, ctxt (hd run))) ?runs"
    using open_groups_runs [of "[ex]" "ctxt ex" "Some (split_on newline (highlights ex))" rest]
    by (simp add: ds)
  have len: "length ?G = length ?runs"
    using arg_cong [OF proj, of length] by simp
  have nth: "fst (?G ! i) = map sentence (?runs ! i) \<and> fst (snd (?G ! i)) = ctxt (hd (?runs ! i))"
    if "i < length ?runs" for i
  proof -
    have "map (\<lambda>(sents, c, hl). (sents, c)) ?G ! i =
          map (\<lambda>run. (map sentence run, ctxt (hd run))) ?runs ! i"
      by (simp only: proj)
    then show ?thesis
      using that len by (simp add: case_prod_beta)
  qed
  have part1: "length rouges = length ?runs \<and> length sims = length ?runs \<and>
            (\<forall>i<length ?runs. \<exists>hl.
               process_article cl model tokenizer k
                 (map sentence (?runs ! i)) (ctxt (hd (?runs ! i))) hl =
               Inr (rouges ! i, sims ! i))"
    if "evaluate_model_groups cl dataset model tokenizer k = Inr (rouges, sims)" for rouges sims
  proof -
    from that run have "close_all cl model tokenizer k ?G [] [] = Inr (rouges, sims)"
      by simp
    from close_all_results [OF this] have
      l: "length rouges = length ?G" "length sims = length ?G" and
      p: "\<forall>i<length ?G.
        process_article cl model tokenizer k (fst (?G ! i)) (fst (snd (?G ! i)))
          (snd (snd (?G ! i))) = Inr (rouges ! i, sims ! i)"
      by auto
    have "\<exists>hl. process_article cl model tokenizer k
                 (map sentence (?runs ! i)) (ctxt (hd (?runs ! i))) hl =
               Inr (rouges ! i, sims ! i)"
      if "i < length ?runs" for i
      using p [rule_format, of i] nth [OF that] that len by auto
    with l len show ?thesis
      by simp
  qed
  have part2: "\<exists>rouges sims. evaluate_model_groups cl dataset model tokenizer k = Inr (rouges, sims)"
    if tot: "\<forall>run \<in> set ?runs. \<forall>hl. \<exists>r.
              process_article cl model tokenizer k (map sentence run) (ctxt (hd run)) hl = Inr r"
  proof -
    have "\<exists>r. process_article cl model tokenizer k (fst g) (fst (snd g)) (snd (snd g)) = Inr r"
      if "g \<in> set ?G" for g
    proof -
      from that obtain i where i: "i < length ?G" "g = ?G ! i"
        by (auto simp: in_set_conv_nth)
      then have "?runs ! i \<in> set ?runs"
        using len by simp
      with tot nth [of i] i len show ?thesis
        by auto
    qed
    then show ?thesis
      using close_all_total [of ?G cl model tokenizer k "[]" "[]"] run by auto
  qed
  from part1 part2 concat_context_runs [of dataset] context_runs_same_context [of _ dataset]
    context_runs_maximal [of dataset]
  show ?thesis
    by blast
qed

lemma evaluate_model_groups_runs_example:
  "length (context_runs
     [\<lparr>highlights = ''HA'', sentence = ''s1'', ctxt = ''A''\<rparr>,
      \<lparr>highlights = ''HA'', sentence = ''s2'', ctxt = ''A''\<rparr>,
      \<lparr>highlights = ''HB'', sentence = ''s3'', ctxt = ''B''\<rparr>,
      \<lparr>highlights = ''HB'', sentence = ''s4'', ctxt = ''B''\<rparr>,
      \<lparr>highlights = ''HB'', sentence = ''s5'', ctxt = ''B''\<rparr>]) = 2 \<and>
   (\<exists>rouges sims.
      evaluate_model_groups (Some (\<lambda>h g. Inr (zero_scores, 1)))
        [\<lparr>highlights = ''HA'', sentence = ''s1'', ctxt = ''A''\<rparr>,
         \<lparr>highlights = ''HA'', sentence = ''s2'', ctxt = ''A''\<rparr>,
         \<lparr>highlights = ''HB'', sentence = ''s3'', ctxt = ''B''\<rparr>,
         \<lparr>highlights = ''HB'', sentence = ''s4'', ctxt = ''B''\<rparr>,
         \<lparr>highlights = ''HB'', sentence = ''s5'', ctxt = ''B''\<rparr>]
        (\<lambda>n. PyList (replicate n 1)) (\<lambda>s c. length s) 3 = Inr (rouges, sims) \<and>
      length rouges = 2 \<and> length sims = 2)"
proof -
  let ?ds = "[\<lparr>highlights = ''HA'', sentence = ''s1'', ctxt = ''A''\<rparr>,
      \<lparr>highlights = ''HA'', sentence = ''s2'', ctxt = ''A''\<rparr>,
      \<lparr>highlights = ''HB'', sentence = ''s3'', ctxt = ''B''\<rparr>,
      \<lparr>highlights = ''HB'', sentence = ''s4'', ctxt = ''B''\<rparr>,
      \<lparr>highlights = ''HB'', sentence = ''s5'', ctxt = ''B''\<rparr>]"
  let ?f = "\<lambda>(h::string) (g::string list option). Inr (zero_scores, 1::real) :: error + (score_dict \<times> real)"
  let ?model = "\<lambda>n::nat. PyList (replicate n 1)"
  let ?tokenizer = "\<lambda>(s::string list) (c::string list). length s"
  have ne: "?ds \<noteq> []"
    by simp
  have two: "length (context_runs ?ds) = 2"
    by simp
  have f: "\<forall>h g. \<exists>d s. ?f h g = Inr (d, s) \<and>
             (\<forall>key \<in> set keys. \<forall>metric \<in> set metrics. \<exists>v. leaf d key metric = Inr v)"
    by (simp add: keys_def metrics_def leaf_def zero_scores_def zero_prf_def)
  note t = evaluate_model_groups_runs [OF ne, of "Some ?f" ?model ?tokenizer 3]
  have tot: "\<forall>run \<in> set (context_runs ?ds). \<forall>hl. \<exists>r.
      process_article (Some ?f) ?model ?tokenizer 3 (map sentence run) (ctxt (hd run)) hl = Inr r"
  proof (intro ballI allI)
    fix run hl
    assume "run \<in> set (context_runs ?ds)"
    with t have "run \<noteq> []"
      by blast
    then have "map sentence run \<noteq> []"
      by simp
    then show "\<exists>r. process_article (Some ?f) ?model ?tokenizer 3 (map sentence run) (ctxt (hd run)) hl = Inr r"
      using process_article_total
          [OF f, of ?model ?tokenizer "map sentence run" "ctxt (hd run)"
             "replicate (length run) 1" 3 hl]
      by simp
  qed
  from t tot obtain rouges sims where
    r: "evaluate_model_groups (Some ?f) ?ds ?model ?tokenizer 3 = Inr (rouges, sims)"
    by blast
  with t have "length rouges = length (context_runs ?ds) \<and> length sims = length (context_runs ?ds)"
    by blast
  with r two show ?thesis
    by (intro conjI exI [of _ rouges] exI [of _ sims]) simp_all
qed

text \<open>
  C2 (the code departs from the claim). The dataset with the contexts A, A, B, B, B has
  two runs, and the claim has two results for it. With \<open>compute_labels\<close> unbound, as
  utils.py leaves it, \<open>evaluate_model\<close> raises \<open>NameError\<close> at the closing of the first
  group and no result is produced. With the name bound, a dataset whose first article
  has one sentence (contexts A, B, B, two runs) raises \<open>TypeError\<close> at the closing of that
  article, because the scores of one sentence are a float.
\<close>

theorem evaluate_model_emits_no_group:
  "length (context_runs
     [\<lparr>highlights = ''HA'', sentence = ''s1'', ctxt = ''A''\<rparr>,
      \<lparr>highlights = ''HA'', sentence = ''s2'', ctxt = ''A''\<rparr>,
      \<lparr>highlights = ''HB'', sentence = ''s3'', ctxt = ''B''\<rparr>,
      \<lparr>highlights = ''HB'', sentence = ''s4'', ctxt = ''B''\<rparr>,
      \<lparr>highlights = ''HB'', sentence = ''s5'', ctxt = ''B''\<rparr>]) = 2 \<and>
   evaluate_model_groups None
     [\<lparr>highlights = ''HA'', sentence = ''s1'', ctxt = ''A''\<rparr>,
      \<lparr>highlights = ''HA'', sentence = ''s2'', ctxt = ''A''\<rparr>,
      \<lparr>highlights = ''HB'', sentence = ''s3'', ctxt = ''B''\<rparr>,
      \<lparr>highlights = ''HB'', sentence = ''s4'', ctxt = ''B''\<rparr>,
      \<lparr>highlights = ''HB'', sentence = ''s5'', ctxt = ''B''\<rparr>]
     (\<lambda>n. squeeze_tolist (replicate n 1)) (\<lambda>s c. length s) 3 =
     Inl (NameError ''compute_labels'') \<and>
   evaluate_model None
     [\<lparr>highlights = ''HA'', sentence = ''s1'', ctxt = ''A''\<rparr>,
      \<lparr>highlights = ''HA'', sentence = ''s2'', ctxt = ''A''\<rparr>,
      \<lparr>highlights = ''HB'', sentence = ''s3'', ctxt = ''B''\<rparr>,
      \<lparr>highlights = ''HB'', sentence = ''s4'', ctxt = ''B''\<rparr>,
      \<lparr>highlights = ''HB'', sentence = ''s5'', ctxt = ''B''\<rparr>]
     (\<lambda>n. squeeze_tolist (replicate n 1)) (\<lambda>s c. length s) 3 =
     Inl (NameError ''compute_labels'') \<and>
   length (context_runs
     [\<lparr>highlights = ''HA'', sentence = ''s1'', ctxt = ''A''\<rparr>,
      \<lparr>highlights = ''HB'', sentence = ''s2'', ctxt = ''B''\<rparr>,
      \<lparr>highlights = ''HB'', sentence = ''s3'', ctxt = ''B''\<rparr>]) = 2 \<and>
   evaluate_model_groups (Some (\<lambda>h g. Inr (zero_scores, 1)))
     [\<lparr>highlights = ''HA'', sentence = ''s1'', ctxt = ''A''\<rparr>,
      \<lparr>highlights = ''HB'', sentence = ''s2'', ctxt = ''B''\<rparr>,
      \<lparr>highlights = ''HB'', sentence = ''s3'', ctxt = ''B''\<rparr>]
     (\<lambda>n. squeeze_tolist (replicate n 1)) (\<lambda>s c. length s) 3 =
     Inl TypeError"
proof -
  let ?model = "\<lambda>n::nat. squeeze_tolist (replicate n 1)"
  let ?tokenizer = "\<lambda>(s::string list) (c::string list). length s"
  have one: "get_scores [s] c ?model ?tokenizer = Inl TypeError" for s c
    by (simp add: get_scores_def squeeze_tolist_def)
  have two: "get_scores [s, s'] c ?model ?tokenizer = Inr ([s, s'], [1, 1])" for s s' c
    by (simp add: get_scores_def squeeze_tolist_def sorted_reverse_def Let_def)
  have unbound: "process_article None ?model ?tokenizer 3 [s, s'] c hl =
      Inl (NameError ''compute_labels'')" for s s' c hl
    by (simp add: process_article_def two slice_to_def evaluate_article_def)
  have scalar: "process_article cl ?model ?tokenizer 3 [s] c hl = Inl TypeError" for cl s c hl
    by (simp add: process_article_def one)
  have g5: "evaluate_model_groups None
     [\<lparr>highlights = ''HA'', sentence = ''s1'', ctxt = ''A''\<rparr>,
      \<lparr>highlights = ''HA'', sentence = ''s2'', ctxt = ''A''\<rparr>,
      \<lparr>highlights = ''HB'', sentence = ''s3'', ctxt = ''B''\<rparr>,
      \<lparr>highlights = ''HB'', sentence = ''s4'', ctxt = ''B''\<rparr>,
      \<lparr>highlights = ''HB'', sentence = ''s5'', ctxt = ''B''\<rparr>]
     ?model ?tokenizer 3 = Inl (NameError ''compute_labels'')"
    by (simp add: evaluate_model_groups_close_all unbound)
  have g3: "evaluate_model_groups (Some (\<lambda>h g. Inr (zero_scores, 1)))
     [\<lparr>highlights = ''HA'', sentence = ''s1'', ctxt = ''A''\<rparr>,
      \<lparr>highlights = ''HB'', sentence = ''s2'', ctxt = ''B''\<rparr>,
      \<lparr>highlights = ''HB'', sentence = ''s3'', ctxt = ''B''\<rparr>]
     ?model ?tokenizer 3 = Inl TypeError"
    by (simp add: evaluate_model_groups_close_all scalar)
  from g5 g3 show ?thesis
    by (simp add: evaluate_model_def)
qed

section \<open>The highlights a group is scored against\<close>

text \<open>
  C1 (the code departs from the claim). A dataset of two articles of two sentences each,
  A with the highlight HA and B with the highlight HB. The function bound to
  \<open>compute_labels\<close> gives the similarity 1 against HA and 0 against anything else, so
  the group of A scores 1 against its own highlights. \<open>evaluate_model\<close> records 0 for
  it: at the change of context it hands \<open>evaluate_article\<close> the highlights of the first
  row of B (test.py line 32), while the closing after the loop uses \<open>current_highlight\<close>
  (line 47).
\<close>

theorem evaluate_model_closes_with_next_highlights:
  "map_sum id snd
     (evaluate_model_groups
        (Some (\<lambda>h g. Inr (zero_scores, if g = Some [''HA''] then 1 else 0)))
        [\<lparr>highlights = ''HA'', sentence = ''s1'', ctxt = ''A''\<rparr>,
         \<lparr>highlights = ''HA'', sentence = ''s2'', ctxt = ''A''\<rparr>,
         \<lparr>highlights = ''HB'', sentence = ''s3'', ctxt = ''B''\<rparr>,
         \<lparr>highlights = ''HB'', sentence = ''s4'', ctxt = ''B''\<rparr>]
        (\<lambda>n. PyList (replicate n 1)) (\<lambda>s c. length s) 3) = Inr [0, 0] \<and>
   map_sum id snd
     (process_article
        (Some (\<lambda>h g. Inr (zero_scores, if g = Some [''HA''] then 1 else 0)))
        (\<lambda>n. PyList (replicate n 1)) (\<lambda>s c. length s) 3 [''s1'', ''s2''] ''A'' (Some [''HA''])) =
     Inr 1 \<and>
   map_sum id snd
     (process_article
        (Some (\<lambda>h g. Inr (zero_scores, if g = Some [''HA''] then 1 else 0)))
        (\<lambda>n. PyList (replicate n 1)) (\<lambda>s c. length s) 3 [''s1'', ''s2''] ''A'' (Some [''HB''])) =
     Inr 0"
proof -
  let ?f = "\<lambda>(h::string) (g::string list option).
      Inr (zero_scores, if g = Some [''HA''] then 1 else 0::real) :: error + (score_dict \<times> real)"
  have avg: "\<exists>avg. compute_avg_dict [zero_scores, zero_scores] = Inr avg"
    by (intro compute_avg_dict_returns)
       (simp_all add: keys_def metrics_def leaf_def zero_scores_def zero_prf_def)
  then obtain avg where a: "compute_avg_dict [zero_scores, zero_scores] = Inr avg"
    by blast
  have g: "get_scores [s, s'] c (\<lambda>n. PyList (replicate n 1)) (\<lambda>s c. length s) =
           Inr ([s, s'], [1, 1])" for s s' c
    by (simp add: get_scores_def sorted_reverse_def Let_def)
  have p: "process_article (Some ?f) (\<lambda>n. PyList (replicate n 1)) (\<lambda>s c. length s) 3 [s, s'] c hl =
           Inr (avg, if hl = Some [''HA''] then 1 else 0)" for s s' c hl
    by (simp add: process_article_def g slice_to_def evaluate_article_def a np_mean_def)
  have h: "split_on newline ''HB'' = [''HB'']"
    by (simp add: split_on_def newline_def)
  show ?thesis
    by (simp add: evaluate_model_groups_close_all p h)
qed

section \<open>Cleaning: the records returned\<close>

lemma isalpha_not_space: "isalpha c \<Longrightarrow> \<not> isspace c \<and> c \<noteq> newline"
  by (auto simp: isalpha_def isspace_def newline_def code_point_def Let_def)

lemma in_set_dropWhile: "x \<in> set xs \<Longrightarrow> \<not> P x \<Longrightarrow> x \<in> set (dropWhile P xs)"
  by (induction xs) auto

lemma set_strip: "set (strip s) \<subseteq> set s"
proof
  fix x
  assume "x \<in> set (strip s)"
  then have "x \<in> set (dropWhile isspace (rev (dropWhile isspace s)))"
    by (simp add: strip_def)
  then have "x \<in> set (rev (dropWhile isspace s))"
    by (rule set_dropWhileD)
  then have "x \<in> set (dropWhile isspace s)"
    by simp
  then show "x \<in> set s"
    by (rule set_dropWhileD)
qed

lemma strip_keeps: "c \<in> set s \<Longrightarrow> \<not> isspace c \<Longrightarrow> c \<in> set (strip s)"
  unfolding strip_def by (simp add: in_set_dropWhile)

lemma clean_highlight_alpha:
  "\<exists>c \<in> set text. isalpha c \<Longrightarrow> \<exists>c \<in> set (clean_highlight text). isalpha c"
proof -
  assume "\<exists>c \<in> set text. isalpha c"
  then obtain c where c: "c \<in> set text" "isalpha c"
    by blast
  then have "c \<in> set (filter (\<lambda>c. c \<noteq> newline) text)"
    using isalpha_not_space [of c] by simp
  then have "c \<in> set (strip (filter (\<lambda>c. c \<noteq> newline) text))"
    using isalpha_not_space [of c] c(2) by (intro strip_keeps) simp_all
  with c(2) show ?thesis
    unfolding clean_highlight_def by blast
qed

lemma clean_highlight_no_newline: "newline \<notin> set (clean_highlight text)"
  unfolding clean_highlight_def using set_strip [of "filter (\<lambda>c. c \<noteq> newline) text"] by auto

lemma join_snoc: "pre \<noteq> [] \<Longrightarrow> join sep (pre @ [x]) = join sep pre @ sep # x"
  by (induction sep pre rule: join.induct) simp_all

lemma join_nonempty: "pre \<noteq> [] \<Longrightarrow> \<forall>p \<in> set pre. p \<noteq> [] \<Longrightarrow> join sep pre \<noteq> []"
  by (induction sep pre rule: join.induct) simp_all

lemma highlights_loop_join:
  assumes "\<forall>p \<in> set pre. p \<noteq> []"
  shows "highlights_loop hs (join newline pre) n =
         (join newline (pre @ map clean_highlight (filter keep_highlight hs)),
          n + length (filter keep_highlight hs))"
  using assms
proof (induction hs arbitrary: pre n)
  case Nil
  show ?case by simp
next
  case (Cons h hs)
  show ?case
  proof (cases "keep_highlight h")
    case False
    with Cons show ?thesis by simp
  next
    case True
    then have "\<exists>c \<in> set (clean_highlight h). isalpha c"
      by (intro clean_highlight_alpha) (simp add: keep_highlight_def)
    then have ne: "clean_highlight h \<noteq> []"
      by auto
    have step: "(if join newline pre \<noteq> [] then join newline pre @ [newline] else join newline pre)
                  @ clean_highlight h = join newline (pre @ [clean_highlight h])"
    proof (cases "pre = []")
      case True
      then show ?thesis by simp
    next
      case False
      with Cons.prems show ?thesis
        by (simp add: join_snoc join_nonempty)
    qed
    have "\<forall>p \<in> set (pre @ [clean_highlight h]). p \<noteq> []"
      using Cons.prems ne by auto
    from Cons.IH [OF this, of "n + 1"] True step show ?thesis
      by simp
  qed
qed

lemma split_pieces_append:
  "sep \<notin> set x \<Longrightarrow> split_pieces sep cur (x @ rest) = split_pieces sep (cur @ x) rest"
  by (induction x arbitrary: cur) auto

lemma split_pieces_join:
  "xs \<noteq> [] \<Longrightarrow> \<forall>x \<in> set xs. sep \<notin> set x \<Longrightarrow>
   split_pieces sep cur (join sep xs) = (cur @ hd xs) # tl xs"
proof (induction sep xs arbitrary: cur rule: join.induct)
  case (1 sep)
  then show ?case by simp
next
  case (2 sep x)
  then show ?case
    using split_pieces_append [of sep x cur "[]"] by simp
next
  case (3 sep x y ys)
  have "split_pieces sep [] (join sep (y # ys)) = ([] @ hd (y # ys)) # tl (y # ys)"
    using 3 by (intro "3.IH") simp_all
  then show ?case
    using "3.prems" split_pieces_append [of sep x cur "sep # join sep (y # ys)"] by simp
qed

lemma split_on_join:
  "xs \<noteq> [] \<Longrightarrow> \<forall>x \<in> set xs. sep \<notin> set x \<Longrightarrow> split_on sep (join sep xs) = xs"
  using split_pieces_join [of xs sep "[]"] by (simp add: split_on_def)

lemma clean_point_Some:
  assumes "clean_point nlp dp = Some cleaned"
  shows "split_on newline (highlights cleaned) = kept_highlights nlp dp \<and>
         3 \<le> length (kept_highlights nlp dp) \<and> length (kept_highlights nlp dp) \<le> 5 \<and>
         300 \<le> length (article cleaned)"
proof -
  have loop: "highlights_loop (nlp (highlights dp)) [] 0 =
        (join newline (kept_highlights nlp dp), length (kept_highlights nlp dp))"
    using highlights_loop_join [of "[]" "nlp (highlights dp)" 0]
    by (simp add: kept_highlights_def)
  from assms have n: "3 \<le> length (kept_highlights nlp dp) \<and> length (kept_highlights nlp dp) \<le> 5"
    and h: "highlights cleaned = join newline (kept_highlights nlp dp)"
    and a: "300 \<le> length (article cleaned)"
    by (auto simp: clean_point_def loop Let_def split: if_splits)
  have "kept_highlights nlp dp \<noteq> []"
    using n by auto
  moreover have "\<forall>x \<in> set (kept_highlights nlp dp). newline \<notin> set x"
    by (auto simp: kept_highlights_def clean_highlight_no_newline)
  ultimately have "split_on newline (highlights cleaned) = kept_highlights nlp dp"
    unfolding h by (rule split_on_join)
  with n a show ?thesis by simp
qed

lemma clean_loop_result:
  "length cleaned_ds \<le> num_samples \<Longrightarrow>
   clean_loop nlp num_samples ds cleaned_ds =
     (if length cleaned_ds + length (List.map_filter (clean_point nlp) ds) < num_samples
      then Inl IndexError
      else Inr (cleaned_ds @ take (num_samples - length cleaned_ds)
                  (List.map_filter (clean_point nlp) ds)))"
proof (induction ds arbitrary: cleaned_ds)
  case Nil
  then show ?case by (simp add: List.map_filter_simps)
next
  case (Cons dp ds)
  show ?case
  proof (cases "length cleaned_ds < num_samples")
    case False
    with Cons.prems show ?thesis by simp
  next
    case True
    show ?thesis
    proof (cases "clean_point nlp dp")
      case None
      with True Cons show ?thesis
        by (simp add: List.map_filter_simps)
    next
      case (Some c)
      have "length (cleaned_ds @ [c]) \<le> num_samples"
        using True by simp
      from Cons.IH [OF this] Some True show ?thesis
        by (simp add: List.map_filter_simps take_Cons' Suc_diff_Suc)
    qed
  qed
qed

lemma map_filter_mem:
  "y \<in> set (List.map_filter f xs) \<Longrightarrow> \<exists>x \<in> set xs. f x = Some y"
  by (auto simp: List.map_filter_def)

lemma kept_highlights_mem:
  assumes "h \<in> set (kept_highlights nlp dp)"
  shows "(\<exists>c \<in> set h. isalpha c) \<and>
         (\<exists>raw \<in> set (nlp (highlights dp)). h = clean_highlight raw \<and>
            3 < length (split_on CHR '' '' raw) \<and> (\<exists>c \<in> set raw. isalpha c))"
proof -
  from assms obtain raw where raw: "raw \<in> set (nlp (highlights dp))" "keep_highlight raw"
    "h = clean_highlight raw"
    by (auto simp: kept_highlights_def)
  from raw(2) have k: "3 < length (split_on CHR '' '' raw)" "\<exists>c \<in> set raw. isalpha c"
    by (simp_all add: keep_highlight_def)
  from clean_highlight_alpha [OF k(2)] raw k show ?thesis
    by blast
qed

text \<open>
  What holds of the records returned. \<open>clean_dataset\<close> either raises \<open>IndexError\<close>, when the shuffled
  source has fewer than \<open>num_samples\<close> records that pass the filters, or returns exactly
  \<open>num_samples\<close> records, the first that pass, in the order of the shuffled source. In
  every returned record the highlights are between 3 and 5 lines; each line has an
  alphabetic character and is the text, without newlines and stripped, of a sentence of
  the source's highlights that has more than 3 pieces when split at single spaces and an
  alphabetic character; and the article has at least 300 characters. The count of words
  is made on the sentence as spaCy gives it, not on the line that is stored.
\<close>

lemma clean_dataset_records:
  "(case clean_dataset nlp shuffle dataset num_samples seed of
      Inl e \<Rightarrow>
        e = IndexError \<and>
        length (List.map_filter (clean_point nlp) (shuffle seed dataset)) < num_samples
    | Inr out \<Rightarrow>
        length out = num_samples \<and>
        out = take num_samples (List.map_filter (clean_point nlp) (shuffle seed dataset)) \<and>
        (\<forall>cleaned \<in> set out. \<exists>dp \<in> set (shuffle seed dataset).
           clean_point nlp dp = Some cleaned \<and>
           3 \<le> length (split_on newline (highlights cleaned)) \<and>
           length (split_on newline (highlights cleaned)) \<le> 5 \<and>
           (\<forall>h \<in> set (split_on newline (highlights cleaned)).
              (\<exists>c \<in> set h. isalpha c) \<and>
              (\<exists>raw \<in> set (nlp (highlights dp)). h = clean_highlight raw \<and>
                 3 < length (split_on CHR '' '' raw) \<and> (\<exists>c \<in> set raw. isalpha c))) \<and>
           300 \<le> length (article cleaned)))"
proof -
  let ?ds = "shuffle seed dataset"
  let ?acc = "List.map_filter (clean_point nlp) ?ds"
  have run: "clean_dataset nlp shuffle dataset num_samples seed =
      (if length ?acc < num_samples then Inl IndexError else Inr (take num_samples ?acc))"
    using clean_loop_result [of "[]" num_samples nlp ?ds] by (simp add: clean_dataset_def)
  show ?thesis
  proof (cases "length ?acc < num_samples")
    case True
    with run show ?thesis by simp
  next
    case False
    have rec: "\<exists>dp \<in> set ?ds.
           clean_point nlp dp = Some cleaned \<and>
           3 \<le> length (split_on newline (highlights cleaned)) \<and>
           length (split_on newline (highlights cleaned)) \<le> 5 \<and>
           (\<forall>h \<in> set (split_on newline (highlights cleaned)).
              (\<exists>c \<in> set h. isalpha c) \<and>
              (\<exists>raw \<in> set (nlp (highlights dp)). h = clean_highlight raw \<and>
                 3 < length (split_on CHR '' '' raw) \<and> (\<exists>c \<in> set raw. isalpha c))) \<and>
           300 \<le> length (article cleaned)"
      if "cleaned \<in> set (take num_samples ?acc)" for cleaned
    proof -
      from that have "cleaned \<in> set ?acc"
        by (rule in_set_takeD)
      from map_filter_mem [OF this] obtain dp where
        dp: "dp \<in> set ?ds" "clean_point nlp dp = Some cleaned"
        by blast
      note c = clean_point_Some [OF dp(2)]
      from c have e: "split_on newline (highlights cleaned) = kept_highlights nlp dp"
        by blast
      have "\<forall>h \<in> set (split_on newline (highlights cleaned)).
              (\<exists>c \<in> set h. isalpha c) \<and>
              (\<exists>raw \<in> set (nlp (highlights dp)). h = clean_highlight raw \<and>
                 3 < length (split_on CHR '' '' raw) \<and> (\<exists>c \<in> set raw. isalpha c))"
        unfolding e using kept_highlights_mem [of _ nlp dp] by blast
      with c dp show ?thesis
        unfolding e by blast
    qed
    have "length (take num_samples ?acc) = num_samples"
      using False by simp
    with rec run False show ?thesis
      by simp
  qed
qed

lemma clean_dataset_example:
  "clean_dataset (split_on newline) (\<lambda>seed ds. ds)
     [\<lparr>highlights = ''Go home now '' @ newline # ''Police arrested the man .'' @ newline #
          ''He will appear in court .'',
       article = ''LONDON, England (Reuters) -- Harry Potter star Daniel Radcliffe gains access to a reported fortune as he turns eighteen on Monday, but he insists the money will not cast a spell on him. The young actor says he has no plans to fritter his cash away on fast cars, drink and celebrity parties. His earnings from the first five films have been held in a trust fund which he has not been able to touch.''\<rparr>]
     1 42 =
   Inr [\<lparr>highlights = ''Go home now'' @ newline # ''Police arrested the man .'' @ newline #
          ''He will appear in court .'',
         article = ''Harry Potter star Daniel Radcliffe gains access to a reported fortune as he turns eighteen on Monday, but he insists the money will not cast a spell on him. The young actor says he has no plans to fritter his cash away on fast cars, drink and celebrity parties. His earnings from the first five films have been held in a trust fund which he has not been able to touch.''\<rparr>]"
  by code_simp

lemma example_highlights:
  "split_on newline (''Go home now'' @ newline # ''Police arrested the man .'' @ newline #
          ''He will appear in court .'') =
   [''Go home now'', ''Police arrested the man .'', ''He will appear in court .'']"
  by code_simp

lemma example_words:
  "length (split ''Go home now'') = 3 \<and> length (split_on CHR '' '' ''Go home now'') = 3"
  by code_simp

lemma clean_dataset_records_example:
  "length [\<lparr>highlights = ''Go home now'' @ newline # ''Police arrested the man .'' @ newline #
          ''He will appear in court .'',
         article = ''Harry Potter star Daniel Radcliffe gains access to a reported fortune as he turns eighteen on Monday, but he insists the money will not cast a spell on him. The young actor says he has no plans to fritter his cash away on fast cars, drink and celebrity parties. His earnings from the first five films have been held in a trust fund which he has not been able to touch.''\<rparr>] = (1::nat) \<and>
   3 \<le> length (split_on newline (''Go home now'' @ newline # ''Police arrested the man .'' @ newline #
          ''He will appear in court .'')) \<and>
   length (split_on newline (''Go home now'' @ newline # ''Police arrested the man .'' @ newline #
          ''He will appear in court .'')) \<le> 5 \<and>
   300 \<le> length ''Harry Potter star Daniel Radcliffe gains access to a reported fortune as he turns eighteen on Monday, but he insists the money will not cast a spell on him. The young actor says he has no plans to fritter his cash away on fast cars, drink and celebrity parties. His earnings from the first five films have been held in a trust fund which he has not been able to touch.''"
proof -
  let ?dp = "\<lparr>highlights = ''Go home now '' @ newline # ''Police arrested the man .'' @ newline #
          ''He will appear in court .'',
       article = ''LONDON, England (Reuters) -- Harry Potter star Daniel Radcliffe gains access to a reported fortune as he turns eighteen on Monday, but he insists the money will not cast a spell on him. The young actor says he has no plans to fritter his cash away on fast cars, drink and celebrity parties. His earnings from the first five films have been held in a trust fund which he has not been able to touch.''\<rparr>"
  let ?rec = "\<lparr>highlights = ''Go home now'' @ newline # ''Police arrested the man .'' @ newline #
          ''He will appear in court .'',
         article = ''Harry Potter star Daniel Radcliffe gains access to a reported fortune as he turns eighteen on Monday, but he insists the money will not cast a spell on him. The young actor says he has no plans to fritter his cash away on fast cars, drink and celebrity parties. His earnings from the first five films have been held in a trust fund which he has not been able to touch.''\<rparr>"
  note t = clean_dataset_records [where nlp = "split_on newline" and shuffle = "\<lambda>seed ds. ds"
      and dataset = "[?dp]" and num_samples = 1 and seed = 42]
  have "length [?rec] = 1 \<and>
        (\<forall>cleaned \<in> set [?rec].
           3 \<le> length (split_on newline (highlights cleaned)) \<and>
           length (split_on newline (highlights cleaned)) \<le> 5 \<and>
           300 \<le> length (article cleaned))"
    using t unfolding clean_dataset_example sum.case by blast
  then show ?thesis
    by simp
qed

text \<open>
  C7 (the code departs from the claim). A record whose first highlight sentence is
  "Go home now " (with a final space, as a sentence splitter that keeps the whitespace
  before a line break gives it). Line 55 counts the pieces of the unstripped text at single
  spaces, four with the empty piece after the final space, so the sentence is kept; line
  59 stores the stripped text "Go home now", of three words, where the claim has more than
  three words in every kept highlight. (Line 83 of the same function counts words with
  \<open>split()\<close>, which gives three here.)
\<close>

theorem clean_dataset_three_word_highlight:
  "clean_dataset (split_on newline) (\<lambda>seed ds. ds)
     [\<lparr>highlights = ''Go home now '' @ newline # ''Police arrested the man .'' @ newline #
          ''He will appear in court .'',
       article = ''LONDON, England (Reuters) -- Harry Potter star Daniel Radcliffe gains access to a reported fortune as he turns eighteen on Monday, but he insists the money will not cast a spell on him. The young actor says he has no plans to fritter his cash away on fast cars, drink and celebrity parties. His earnings from the first five films have been held in a trust fund which he has not been able to touch.''\<rparr>]
     1 42 =
   Inr [\<lparr>highlights = ''Go home now'' @ newline # ''Police arrested the man .'' @ newline #
          ''He will appear in court .'',
         article = ''Harry Potter star Daniel Radcliffe gains access to a reported fortune as he turns eighteen on Monday, but he insists the money will not cast a spell on him. The young actor says he has no plans to fritter his cash away on fast cars, drink and celebrity parties. His earnings from the first five films have been held in a trust fund which he has not been able to touch.''\<rparr>] \<and>
   split_on newline (''Go home now'' @ newline # ''Police arrested the man .'' @ newline #
          ''He will appear in court .'') =
     [''Go home now'', ''Police arrested the man .'', ''He will appear in court .''] \<and>
   \<not> 3 < length (split ''Go home now'') \<and>
   \<not> 3 < length (split_on CHR '' '' ''Go home now'')"
  using clean_dataset_example example_highlights example_words
  by (simp only: simp_thms)

end
